theory Spec2Isabelle
  imports Main "HOL-Library.Word"
begin

section \<open>Data model\<close>

text \<open>
  A JavaScript string is a sequence of UTF-16 code units. Document offsets are
  JavaScript numbers holding integers; they are modelled as \<open>int\<close>. Indices into one
  text window are natural numbers.
\<close>

type_synonym jsstring = "16 word list"

text \<open>A \<open>TFile\<close> is identified by its path.\<close>

type_synonym tfile = string

text \<open>
  The widget of \<open>src/linker/liveLinker.ts\<close> (constructor arguments \<open>text\<close>,
  \<open>linkFile\<close>, \<open>from\<close>, \<open>to\<close>, \<open>isSubWord\<close>); \<open>linkFile\<close> is
  \<open>node.files.values().next().value\<close>, which is \<open>undefined\<close> for an empty set.
\<close>

record liveLinkWidget =
  wtext :: jsstring
  linkFile :: "tfile option"
  wfrom :: int
  wto :: int
  isSubWord :: bool

text \<open>The widget of \<open>src/glossary/liveLinker.ts\<close> (arguments \<open>text\<close>, \<open>linkFile\<close>).\<close>

record glossaryWidget =
  gtext :: jsstring
  glinkFile :: "tfile option"

text \<open>One element of the \<open>additions\<close> array: \<open>{ id, from, to, widget }\<close>.\<close>

record 'w addition =
  aid :: nat
  afrom :: int
  ato :: int
  widget :: 'w

section \<open>Overlap resolution in \<open>src/linker/liveLinker.ts\<close>\<close>

text \<open>
  The comparator handed to \<open>additions.sort\<close>:
  \<^verbatim>\<open>if (a.from === b.from) { return b.to - a.to; } return a.from - b.from\<close>
\<close>

definition compareAdditions :: "'w addition \<Rightarrow> 'w addition \<Rightarrow> int" where
  "compareAdditions a b = (if afrom a = afrom b then ato b - ato a else afrom a - afrom b)"

text \<open>
  \<open>Array.prototype.sort\<close> is stable, and with a consistent comparator its result is the
  one stable sorted permutation of the array. It is modelled by a stable insertion sort:
  an element is placed before the first element that does not compare below it.
\<close>

fun insertAddition :: "'w addition \<Rightarrow> 'w addition list \<Rightarrow> 'w addition list" where
  "insertAddition a [] = [a]"
| "insertAddition a (b # bs) =
     (if compareAdditions a b \<le> 0 then a # b # bs else b # insertAddition a bs)"

fun sortAdditions :: "'w addition list \<Rightarrow> 'w addition list" where
  "sortAdditions [] = []"
| "sortAdditions (a # as) = insertAddition a (sortAdditions as)"

text \<open>
  The inner loop \<open>for (let j = i + 1; ...)\<close>: it walks the candidates after
  \<open>addition\<close>, stops at the first one with \<open>otherAddition.from >= addition.to\<close>,
  and enters the id of every one before that into \<open>additionsToDelete\<close>.
\<close>

fun markFollowing :: "'w addition \<Rightarrow> 'w addition list \<Rightarrow> (nat \<rightharpoonup> bool) \<Rightarrow> (nat \<rightharpoonup> bool)" where
  "markFollowing addition [] del = del"
| "markFollowing addition (other # rest) del =
     (if afrom other \<ge> ato addition then del
      else markFollowing addition rest (del(aid other \<mapsto> True)))"

text \<open>The outer loop \<open>for (let i = 0; i < additions.length; i++)\<close>.\<close>

fun markOverlaps :: "'w addition list \<Rightarrow> (nat \<rightharpoonup> bool) \<Rightarrow> (nat \<rightharpoonup> bool)" where
  "markOverlaps [] del = del"
| "markOverlaps (addition # rest) del = markOverlaps rest (markFollowing addition rest del)"

text \<open>
  \<open>filteredAdditions\<close>: the additions whose id is not a key of \<open>additionsToDelete\<close>,
  in the order of the array.
\<close>

definition filterAdditions :: "'w addition list \<Rightarrow> 'w addition list" where
  "filterAdditions additions =
     (let additionsToDelete = markOverlaps additions Map.empty
      in filter (\<lambda>addition. additionsToDelete (aid addition) = None) additions)"

definition resolveOverlaps :: "'w addition list \<Rightarrow> 'w addition list" where
  "resolveOverlaps additions = filterAdditions (sortAdditions additions)"


section \<open>Overlap resolution in \<open>src/glossary/liveLinker.ts\<close>\<close>

text \<open>
  The glossary plugin carries its own copy of the sort and of the two loops; it is
  translated from that file on its own.
\<close>

definition glossary_compareAdditions :: "'w addition \<Rightarrow> 'w addition \<Rightarrow> int" where
  "glossary_compareAdditions a b =
     (if afrom a = afrom b then ato b - ato a else afrom a - afrom b)"

fun glossary_insertAddition :: "'w addition \<Rightarrow> 'w addition list \<Rightarrow> 'w addition list" where
  "glossary_insertAddition a [] = [a]"
| "glossary_insertAddition a (b # bs) =
     (if glossary_compareAdditions a b \<le> 0 then a # b # bs
      else b # glossary_insertAddition a bs)"

fun glossary_sortAdditions :: "'w addition list \<Rightarrow> 'w addition list" where
  "glossary_sortAdditions [] = []"
| "glossary_sortAdditions (a # as) = glossary_insertAddition a (glossary_sortAdditions as)"

fun glossary_markFollowing ::
  "'w addition \<Rightarrow> 'w addition list \<Rightarrow> (nat \<rightharpoonup> bool) \<Rightarrow> (nat \<rightharpoonup> bool)" where
  "glossary_markFollowing addition [] del = del"
| "glossary_markFollowing addition (other # rest) del =
     (if afrom other \<ge> ato addition then del
      else glossary_markFollowing addition rest (del(aid other \<mapsto> True)))"

fun glossary_markOverlaps :: "'w addition list \<Rightarrow> (nat \<rightharpoonup> bool) \<Rightarrow> (nat \<rightharpoonup> bool)" where
  "glossary_markOverlaps [] del = del"
| "glossary_markOverlaps (addition # rest) del =
     glossary_markOverlaps rest (glossary_markFollowing addition rest del)"

definition glossary_filterAdditions :: "'w addition list \<Rightarrow> 'w addition list" where
  "glossary_filterAdditions additions =
     (let additionsToDelete = glossary_markOverlaps additions Map.empty
      in filter (\<lambda>addition. additionsToDelete (aid addition) = None) additions)"

definition glossary_resolveOverlaps :: "'w addition list \<Rightarrow> 'w addition list" where
  "glossary_resolveOverlaps additions =
     glossary_filterAdditions (glossary_sortAdditions additions)"

section \<open>Exclusion filter\<close>

text \<open>
  A node of the editor's syntax tree as the \<open>enter\<close> callback sees it: the name of its
  type and its range.
\<close>

record syntaxNode =
  ntype :: string
  nfrom :: int
  nto :: int

text \<open>\<open>type.contains(excludedType)\<close>: the second string occurs in the first.\<close>

fun startsWith :: "string \<Rightarrow> string \<Rightarrow> bool" where
  "startsWith s [] = True"
| "startsWith [] (p # ps) = False"
| "startsWith (c # cs) (p # ps) = (c = p \<and> startsWith cs ps)"

fun contains :: "string \<Rightarrow> string \<Rightarrow> bool" where
  "contains [] sub = startsWith [] sub"
| "contains (c # cs) sub = (startsWith (c # cs) sub \<or> contains cs sub)"

text \<open>
  The interval tree of \<open>@flatten-js/interval-tree\<close> is an external library. It is
  modelled by the list of the intervals inserted so far. Its \<open>search\<close> returns the
  inserted intervals that intersect the query, both taken as closed intervals: two
  intervals do not intersect when one ends below the start of the other.
\<close>

type_synonym intervalTree = "(int \<times> int) list"

definition intersect :: "int \<times> int \<Rightarrow> int \<times> int \<Rightarrow> bool" where
  "intersect a b = (\<not> (snd a < fst b \<or> snd b < fst a))"

definition treeInsert :: "int \<times> int \<Rightarrow> intervalTree \<Rightarrow> intervalTree" where
  "treeInsert iv tree = tree @ [iv]"

definition treeSearch :: "intervalTree \<Rightarrow> int \<times> int \<Rightarrow> (int \<times> int) list" where
  "treeSearch tree iv = filter (\<lambda>k. intersect k iv) tree"

text \<open>
  The loop \<open>for (const excludedType of excludedTypes)\<close> inside \<open>enter(node)\<close>: the
  range of the node is inserted once for each excluded string its type name contains.
\<close>

fun enterNode :: "string list \<Rightarrow> syntaxNode \<Rightarrow> intervalTree \<Rightarrow> intervalTree" where
  "enterNode [] node tree = tree"
| "enterNode (excludedType # rest) node tree =
     enterNode rest node
       (if contains (ntype node) excludedType then treeInsert (nfrom node, nto node) tree
        else tree)"

text \<open>\<open>iterate\<close> calls \<open>enter\<close> on the nodes in the order the host hands them over.\<close>

fun iterateNodes :: "string list \<Rightarrow> syntaxNode list \<Rightarrow> intervalTree \<Rightarrow> intervalTree" where
  "iterateNodes excludedTypes [] tree = tree"
| "iterateNodes excludedTypes (node # nodes) tree =
     iterateNodes excludedTypes nodes (enterNode excludedTypes node tree)"

text \<open>The excluded type strings of the linker; \<open>"header-"\<close> is pushed unless headers are included.\<close>

definition excludedTypes :: "bool \<Rightarrow> string list" where
  "excludedTypes includeHeaders =
     [''codeblock'', ''code-block'', ''internal-link'', ''link'']
       @ (if \<not> includeHeaders then [''header-''] else [])"

definition glossary_excludedTypes :: "string list" where
  "glossary_excludedTypes = [''codeblock'', ''code-block'', ''internal-link'']"

text \<open>
  A range added to the \<open>RangeSetBuilder\<close>:
  \<open>builder.add(from, to, Decoration.replace({ widget }))\<close>. The builder is modelled by
  the list of the ranges added to it, in the order of the calls.
\<close>

record 'w decoration =
  dfrom :: int
  dto :: int
  dwidget :: 'w

text \<open>
  The callback of \<open>filteredAdditions.forEach\<close> in the linker. \<open>lineStart\<close> and
  \<open>lineEnd\<close> are the bounds of the line that holds the cursor.
\<close>

definition emitAddition ::
  "intervalTree \<Rightarrow> int \<Rightarrow> bool \<Rightarrow> int \<Rightarrow> int \<Rightarrow> 'w decoration list \<Rightarrow> 'w addition
     \<Rightarrow> 'w decoration list" where
  "emitAddition excludedIntervalTree cursorPos excludeLine lineStart lineEnd builder addition =
     (let overlaps = treeSearch excludedIntervalTree (afrom addition, ato addition);
          cursorNearby = (cursorPos \<ge> afrom addition - 0 \<and> cursorPos \<le> ato addition + 0);
          additionIsInCurrentLine = (afrom addition \<ge> lineStart \<and> ato addition \<le> lineEnd)
      in if length overlaps = 0 \<and> \<not> cursorNearby \<and> (\<not> excludeLine \<or> \<not> additionIsInCurrentLine)
         then builder @ [\<lparr>dfrom = afrom addition, dto = ato addition, dwidget = widget addition\<rparr>]
         else builder)"

definition emitDecorations ::
  "intervalTree \<Rightarrow> int \<Rightarrow> bool \<Rightarrow> int \<Rightarrow> int \<Rightarrow> 'w decoration list \<Rightarrow> 'w addition list
     \<Rightarrow> 'w decoration list" where
  "emitDecorations excludedIntervalTree cursorPos excludeLine lineStart lineEnd builder
       filteredAdditions =
     foldl (emitAddition excludedIntervalTree cursorPos excludeLine lineStart lineEnd)
       builder filteredAdditions"

text \<open>The same callback in the glossary plugin, which has no current-line rule.\<close>

definition glossary_emitAddition ::
  "intervalTree \<Rightarrow> int \<Rightarrow> 'w decoration list \<Rightarrow> 'w addition \<Rightarrow> 'w decoration list" where
  "glossary_emitAddition excludedIntervalTree cursorPos builder addition =
     (let overlaps = treeSearch excludedIntervalTree (afrom addition, ato addition);
          cursorNearby = (cursorPos \<ge> afrom addition - 0 \<and> cursorPos \<le> ato addition + 0)
      in if length overlaps = 0 \<and> \<not> cursorNearby
         then builder @ [\<lparr>dfrom = afrom addition, dto = ato addition, dwidget = widget addition\<rparr>]
         else builder)"

definition glossary_emitDecorations ::
  "intervalTree \<Rightarrow> int \<Rightarrow> 'w decoration list \<Rightarrow> 'w addition list \<Rightarrow> 'w decoration list" where
  "glossary_emitDecorations excludedIntervalTree cursorPos builder filteredAdditions =
     foldl (glossary_emitAddition excludedIntervalTree cursorPos) builder filteredAdditions"

section \<open>Decoding the text window\<close>

datatype jserror = RangeError

definition isHighSurrogate :: "16 word \<Rightarrow> bool" where
  "isHighSurrogate u = (0xD800 \<le> u \<and> u \<le> 0xDBFF)"

definition isLowSurrogate :: "16 word \<Rightarrow> bool" where
  "isLowSurrogate u = (0xDC00 \<le> u \<and> u \<le> 0xDFFF)"

text \<open>
  \<open>String.prototype.codePointAt\<close>: \<open>undefined\<close> (here \<open>None\<close>) outside the string;
  the combined code point when a high surrogate is followed by a low surrogate; the
  code unit itself otherwise, also for a surrogate that stands alone.
\<close>

definition codePointAt :: "jsstring \<Rightarrow> nat \<Rightarrow> nat option" where
  "codePointAt s i =
     (if i \<ge> length s then None
      else let first = s ! i in
        if \<not> isHighSurrogate first \<or> i + 1 = length s then Some (unat first)
        else let second = s ! (i + 1) in
          if \<not> isLowSurrogate second then Some (unat first)
          else Some ((unat first - 0xD800) * 0x400 + (unat second - 0xDC00) + 0x10000))"

text \<open>
  \<open>String.fromCodePoint\<close>: a \<open>RangeError\<close> for \<open>undefined\<close> (which converts to
  \<open>NaN\<close>) and for a number above \<open>0x10FFFF\<close>; one code unit up to \<open>0xFFFF\<close>; a
  surrogate pair above.
\<close>

definition fromCodePoint :: "nat option \<Rightarrow> jserror + jsstring" where
  "fromCodePoint cp =
     (case cp of
        None \<Rightarrow> Inl RangeError
      | Some n \<Rightarrow>
          if n > 0x10FFFF then Inl RangeError
          else if n \<le> 0xFFFF then Inr [of_nat n]
          else Inr [of_nat ((n - 0x10000) div 0x400 + 0xD800),
                    of_nat ((n - 0x10000) mod 0x400 + 0xDC00)])"

definition newline :: jsstring where
  "newline = [0x0A]"

text \<open>
  The first two statements of the loop body:
  \<^verbatim>\<open>const codePoint = text.codePointAt(i)!;\<close>
  \<^verbatim>\<open>const char = i < text.length ? String.fromCodePoint(codePoint) : "\n";\<close>
\<close>

definition currentChar :: "jsstring \<Rightarrow> nat \<Rightarrow> jserror + jsstring" where
  "currentChar text i =
     (let codePoint = codePointAt text i
      in if i < length text then fromCodePoint codePoint else Inr newline)"

text \<open>
  The loop \<open>for (let i = 0; i <= text.length; i) { ...; i += char.length }\<close>, which
  both plugins run, with the rest of its body as a parameter: \<open>body i char\<close> is run on
  the loop's state once per iteration. An exception leaves the loop with \<open>Inl\<close>.
\<close>

function scanLoop ::
  "(nat \<Rightarrow> jsstring \<Rightarrow> 's \<Rightarrow> 's) \<Rightarrow> jsstring \<Rightarrow> nat \<Rightarrow> 's \<Rightarrow> jserror + 's" where
  "scanLoop body text i st =
     (if i \<le> length text then
        (case currentChar text i of
           Inl e \<Rightarrow> Inl e
         | Inr char \<Rightarrow> scanLoop body text (i + length char) (body i char st))
      else Inr st)"
  by pat_completeness auto
termination
proof (relation "measure (\<lambda>(body, text, i, st). Suc (length text) - i)")
  show "wf (measure (\<lambda>(body, text, i, st). Suc (length text) - i))"
    by simp
next
  fix body :: "nat \<Rightarrow> jsstring \<Rightarrow> 's \<Rightarrow> 's" and w :: jsstring and i :: nat and st :: 's
    and c :: jsstring
  assume le: "i \<le> length w" and cur: "currentChar w i = Inr c"
  have "0 < length c"
    using cur
    by (auto simp: currentChar_def fromCodePoint_def newline_def Let_def
          split: if_splits option.splits)
  with le have "Suc (length w) - (i + length c) < Suc (length w) - i"
    by arith
  then show "((body, w, i + length c, body i c st), (body, w, i, st))
       \<in> measure (\<lambda>(body, text, i, st). Suc (length text) - i)"
    by simp
qed

text \<open>The equation of the loop is used by hand, not by the simplifier.\<close>

declare scanLoop.simps [simp del]

section \<open>Prefix automaton and cache\<close>

text \<open>
  Both plugins import \<open>LinkerCache\<close> and \<open>PrefixTree\<close> from \<open>./linkerCache\<close>, a file
  that is not among the sources. The definitions of this section follow sections 3, 4.1
  and 4.2 of the specification.
\<close>

text \<open>
  Modelled from the spec: the word-boundary predicate \<open>PrefixTree.checkWordBoundary\<close>
  (in the absent \<open>linkerCache.ts\<close>): ``a character is a boundary if it is whitespace or
  a defined set of punctuation''. The specification does not list the punctuation, so
  the set is the parameter \<open>punctuation\<close>; whitespace is the white space and the line
  terminators of ECMAScript.
\<close>

definition isWhitespace :: "jsstring \<Rightarrow> bool" where
  "isWhitespace char =
     (case char of
        [u] \<Rightarrow> (0x09 \<le> u \<and> u \<le> 0x0D) \<or> u = 0x20 \<or> u = 0xA0 \<or> u = 0x1680
               \<or> (0x2000 \<le> u \<and> u \<le> 0x200A) \<or> u = 0x2028 \<or> u = 0x2029
               \<or> u = 0x202F \<or> u = 0x205F \<or> u = 0x3000 \<or> u = 0xFEFF
      | _ \<Rightarrow> False)"

definition checkWordBoundary :: "jsstring list \<Rightarrow> jsstring \<Rightarrow> bool" where
  "checkWordBoundary punctuation char = (isWhitespace char \<or> char \<in> set punctuation)"

text \<open>
  Modelled from the spec: \<open>TrieNode\<close> (absent \<open>linkerCache.ts\<close>): the terminal set of
  entities, in the order of insertion, and the children keyed by one character.
\<close>

datatype prefixNode = PrefixNode (nodeFiles: "tfile list") (children: "(jsstring \<times> prefixNode) list")

text \<open>
  Modelled from the spec: \<open>DictionaryEntry\<close> and the notes of the external store
  (absent \<open>linkerCache.ts\<close>): one entry for the title and one for each alias of a note.
\<close>

record dictionaryEntry =
  etext :: jsstring
  entity :: tfile
  isAlias :: bool

record vaultNote =
  notePath :: tfile
  noteTitle :: jsstring
  noteAliases :: "jsstring list"

definition buildDictionary :: "vaultNote list \<Rightarrow> dictionaryEntry list" where
  "buildDictionary vault =
     concat (map (\<lambda>n. \<lparr>etext = noteTitle n, entity = notePath n, isAlias = False\<rparr>
                       # map (\<lambda>a. \<lparr>etext = a, entity = notePath n, isAlias = True\<rparr>)
                           (noteAliases n)) vault)"

text \<open>
  Modelled from the spec: the characters of a pattern (absent \<open>linkerCache.ts\<close>). A
  pattern is inserted ``character by character''; a character is one code point, as the
  scanner pushes them.
\<close>

fun splitChars :: "jsstring \<Rightarrow> jsstring list" where
  "splitChars [] = []"
| "splitChars [u] = [[u]]"
| "splitChars (u # v # rest) =
     (if isHighSurrogate u \<and> isLowSurrogate v then [u, v] # splitChars rest
      else [u] # splitChars (v # rest))"

text \<open>
  Modelled from the spec: the build of the automaton (absent \<open>linkerCache.ts\<close>): ``insert
  every \<open>DictionaryEntry.text\<close>, character by character, creating trie nodes as needed;
  at the final character of each entry, add its \<open>EntityRef\<close> to that node's terminal
  set''.
\<close>

fun setChild :: "jsstring \<Rightarrow> prefixNode \<Rightarrow> (jsstring \<times> prefixNode) list
    \<Rightarrow> (jsstring \<times> prefixNode) list" where
  "setChild c n [] = [(c, n)]"
| "setChild c n ((k, v) # cs) = (if k = c then (c, n) # cs else (k, v) # setChild c n cs)"

fun insertChars :: "jsstring list \<Rightarrow> tfile \<Rightarrow> prefixNode \<Rightarrow> prefixNode" where
  "insertChars [] f (PrefixNode fs cs) = PrefixNode (if f \<in> set fs then fs else fs @ [f]) cs"
| "insertChars (c # rest) f (PrefixNode fs cs) =
     PrefixNode fs
       (setChild c
          (insertChars rest f (case map_of cs c of None \<Rightarrow> PrefixNode [] [] | Some child \<Rightarrow> child))
          cs)"

definition buildTree :: "dictionaryEntry list \<Rightarrow> prefixNode" where
  "buildTree entries =
     foldl (\<lambda>node e. insertChars (splitChars (etext e)) (entity e) node) (PrefixNode [] []) entries"

text \<open>
  Modelled from the spec: the automaton with its traversal state (absent
  \<open>linkerCache.ts\<close>): the trie, the set of \<open>ActiveCursor\<close>s \<open>{ node, startOffset }\<close>,
  oldest first, and the current offset, which counts the code units pushed since the
  last \<open>reset\<close>.
\<close>

record prefixTree =
  root :: prefixNode
  current :: "(prefixNode \<times> nat) list"
  offset :: nat

text \<open>Modelled from the spec: \<open>reset()\<close> (absent \<open>linkerCache.ts\<close>): ``discard all ActiveCursors''.\<close>

definition reset :: "prefixTree \<Rightarrow> prefixTree" where
  "reset t = t\<lparr>current := [], offset := 0\<rparr>"

text \<open>
  Modelled from the spec: a match result (absent \<open>linkerCache.ts\<close>); the scanner reads
  its \<open>start\<close>, \<open>end\<close> and \<open>files\<close>.
\<close>

record matchNode =
  mstart :: nat
  mend :: nat
  mfiles :: "tfile list"

text \<open>
  Modelled from the spec: \<open>query(offset)\<close> (absent \<open>linkerCache.ts\<close>): ``for every
  currently alive ActiveCursor whose node is terminal, return a result
  \<open>(startOffset..offset, terminalEntities)\<close>''.
\<close>

definition query :: "prefixTree \<Rightarrow> nat \<Rightarrow> matchNode list" where
  "query t index =
     List.map_filter
       (\<lambda>(node, startOffset).
          if nodeFiles node \<noteq> [] then Some \<lparr>mstart = startOffset, mend = index, mfiles = nodeFiles node\<rparr>
          else None)
       (current t)"

text \<open>
  Modelled from the spec: \<open>getCurrentMatchNodes(offset, excludeEntity)\<close> (absent
  \<open>linkerCache.ts\<close>): ``\<open>query(offset)\<close> filtered to drop results whose entity set, after
  removing \<open>excludeEntity\<close>, becomes empty''.
\<close>

definition getCurrentMatchNodes :: "prefixTree \<Rightarrow> nat \<Rightarrow> tfile option \<Rightarrow> matchNode list" where
  "getCurrentMatchNodes t index excludeEntity =
     List.map_filter
       (\<lambda>m. let fs = (case excludeEntity of None \<Rightarrow> mfiles m | Some f \<Rightarrow> removeAll f (mfiles m))
            in if fs = [] then None else Some (m\<lparr>mfiles := fs\<rparr>))
       (query t index)"

text \<open>
  Modelled from the spec: \<open>push(char)\<close> (absent \<open>linkerCache.ts\<close>): ``(a) advance every
  existing ActiveCursor to its child for \<open>char\<close>; drop cursors with no such child; (b)
  start one new ActiveCursor at the root, at the current offset, advanced immediately by
  \<open>char\<close> if the root has a matching child''.
\<close>

definition advance :: "jsstring \<Rightarrow> prefixNode \<times> nat \<Rightarrow> (prefixNode \<times> nat) option" where
  "advance char cursor =
     (case map_of (children (fst cursor)) char of
        None \<Rightarrow> None
      | Some child \<Rightarrow> Some (child, snd cursor))"

definition pushChar :: "jsstring \<Rightarrow> prefixTree \<Rightarrow> prefixTree" where
  "pushChar char t =
     t\<lparr>current := List.map_filter (advance char) (current t @ [(root t, offset t)]),
       offset := offset t + length char\<rparr>"

text \<open>
  Modelled from the spec: the cache (absent \<open>linkerCache.ts\<close>): it ``wraps one Automaton
  plus the Dictionary it was built from'', and holds the pending-rebuild flag that an
  external change sets and the next \<open>updateCache\<close> clears.
\<close>

record linkerCache =
  cache :: prefixTree
  dictionary :: "dictionaryEntry list"
  pendingUpdate :: bool

text \<open>
  Modelled from the spec: \<open>updateCache(force)\<close> (absent \<open>linkerCache.ts\<close>): it ``rebuilds
  the Dictionary and Automaton from the external store when a pending external-update
  signal exists or \<open>force\<close> is true; otherwise a no-op''.
\<close>

definition updateCache :: "bool \<Rightarrow> vaultNote list \<Rightarrow> linkerCache \<Rightarrow> linkerCache" where
  "updateCache force vault lc =
     (if pendingUpdate lc \<or> force then
        \<lparr>cache = \<lparr>root = buildTree (buildDictionary vault), current = [], offset = 0\<rparr>,
         dictionary = buildDictionary vault,
         pendingUpdate = False\<rparr>
      else lc)"

text \<open>Modelled from the spec: the cache's \<open>reset()\<close> (absent \<open>linkerCache.ts\<close>), which ``delegates to automaton reset''.\<close>

definition cacheReset :: "linkerCache \<Rightarrow> linkerCache" where
  "cacheReset lc = lc\<lparr>cache := reset (cache lc)\<rparr>"

section \<open>Candidate scanner of \<open>src/linker/liveLinker.ts\<close>\<close>

text \<open>The settings that \<open>update\<close> and \<open>buildDecorations\<close> read.\<close>

record linkerSettings =
  matchOnlyWholeWords :: bool
  excludeLinksToOwnNote :: bool
  excludeLinksInCurrentLine :: bool
  includeHeaders :: bool

text \<open>What the scan loop changes: the cache, the \<open>additions\<close> array and the counter \<open>id\<close>.\<close>

record 'w scanState =
  scache :: linkerCache
  additions :: "'w addition list"
  nextId :: nat

text \<open>\<open>text.slice(nFrom, nTo)\<close> for indices that are not negative.\<close>

definition slice :: "jsstring \<Rightarrow> nat \<Rightarrow> nat \<Rightarrow> jsstring" where
  "slice text nFrom nTo = take (nTo - nFrom) (drop nFrom text)"

text \<open>\<open>node.files.values().next().value\<close>: the first file of the set, if there is one.\<close>

definition firstFile :: "tfile list \<Rightarrow> tfile option" where
  "firstFile fs = (case fs of [] \<Rightarrow> None | f # _ \<Rightarrow> Some f)"

text \<open>
  The loop body after the decoding of \<open>char\<close>. \<open>vfrom\<close> is the start of the visible
  range and \<open>mappedFile\<close> the entry of \<open>viewUpdateDomToFileMap\<close> for the view.
\<close>

definition scanStep ::
  "jsstring list \<Rightarrow> linkerSettings \<Rightarrow> tfile option \<Rightarrow> int \<Rightarrow> jsstring \<Rightarrow> nat \<Rightarrow> jsstring
     \<Rightarrow> liveLinkWidget scanState \<Rightarrow> liveLinkWidget scanState" where
  "scanStep punctuation settings mappedFile vfrom text i char st =
     (let isWordBoundary = checkWordBoundary punctuation char;
          st1 =
            (if \<not> matchOnlyWholeWords settings \<or> isWordBoundary then
               (let currentNodes =
                      getCurrentMatchNodes (cache (scache st)) i
                        (if excludeLinksToOwnNote settings then mappedFile else None)
                in case currentNodes of
                     [] \<Rightarrow> st
                   | node # _ \<Rightarrow>
                       (let nFrom = mstart node;
                            nTo = mend node;
                            name = slice text nFrom nTo;
                            file = firstFile (mfiles node);
                            aFrom = vfrom + int nFrom;
                            aTo = vfrom + int nTo
                        in st\<lparr>additions := additions st @
                                 [\<lparr>aid = nextId st, afrom = aFrom, ato = aTo,
                                   widget = \<lparr>wtext = name, linkFile = file, wfrom = aFrom,
                                             wto = aTo, isSubWord = (\<not> isWordBoundary)\<rparr>\<rparr>],
                               nextId := Suc (nextId st)\<rparr>))
             else st)
      in st1\<lparr>scache := (scache st1)\<lparr>cache := pushChar char (cache (scache st1))\<rparr>\<rparr>)"

section \<open>\<open>buildDecorations\<close> of \<open>src/linker/liveLinker.ts\<close>\<close>

text \<open>
  What \<open>buildDecorations\<close> reads from the \<open>EditorView\<close>: its DOM element, the
  document, the visible ranges, the start of the main selection, the nodes that
  \<open>syntaxTree(view.state).iterate({ from, to, enter })\<close> enters, and the bounds of the
  line around a position (\<open>lineAt\<close>). The last two are the host's.
\<close>

record editorView =
  vdom :: nat
  doc :: jsstring
  visibleRanges :: "(int \<times> int) list"
  selectionMainFrom :: int
  syntaxTreeIterate :: "int \<Rightarrow> int \<Rightarrow> syntaxNode list"
  lineAt :: "int \<Rightarrow> int \<times> int"

definition sliceString :: "jsstring \<Rightarrow> int \<Rightarrow> int \<Rightarrow> jsstring" where
  "sliceString d vfrom vto = take (nat (vto - vfrom)) (drop (nat vfrom) d)"

text \<open>
  The body of \<open>for (let { from, to } of view.visibleRanges)\<close>. The state is the cache
  and the builder.
\<close>

definition decorateRange ::
  "jsstring list \<Rightarrow> linkerSettings \<Rightarrow> editorView \<Rightarrow> bool \<Rightarrow> tfile option
     \<Rightarrow> linkerCache \<times> liveLinkWidget decoration list \<Rightarrow> int \<times> int
     \<Rightarrow> jserror + (linkerCache \<times> liveLinkWidget decoration list)" where
  "decorateRange punctuation settings v viewIsActive mappedFile state vrange =
     (let vfrom = fst vrange; vto = snd vrange;
          lc = cacheReset (fst state);
          text = sliceString (doc v) vfrom vto
      in case scanLoop (scanStep punctuation settings mappedFile vfrom text) text 0
                \<lparr>scache = lc, additions = [], nextId = 0\<rparr> of
           Inl e \<Rightarrow> Inl e
         | Inr st \<Rightarrow>
             (let sorted = sortAdditions (additions st);
                  filteredAdditions = filterAdditions sorted;
                  excludedIntervalTree =
                    iterateNodes (excludedTypes (includeHeaders settings))
                      (syntaxTreeIterate v vfrom vto) [];
                  cursorPos = selectionMainFrom v;
                  excludeLine = (viewIsActive \<and> excludeLinksInCurrentLine settings);
                  lineStart = fst (lineAt v cursorPos);
                  lineEnd = snd (lineAt v cursorPos)
              in Inr (scache st,
                      emitDecorations excludedIntervalTree cursorPos excludeLine lineStart lineEnd
                        (snd state) filteredAdditions)))"

fun decorateRanges ::
  "jsstring list \<Rightarrow> linkerSettings \<Rightarrow> editorView \<Rightarrow> bool \<Rightarrow> tfile option
     \<Rightarrow> linkerCache \<times> liveLinkWidget decoration list \<Rightarrow> (int \<times> int) list
     \<Rightarrow> jserror + (linkerCache \<times> liveLinkWidget decoration list)" where
  "decorateRanges punctuation settings v viewIsActive mappedFile state [] = Inr state"
| "decorateRanges punctuation settings v viewIsActive mappedFile state (vrange # ranges) =
     (case decorateRange punctuation settings v viewIsActive mappedFile state vrange of
        Inl e \<Rightarrow> Inl e
      | Inr state' \<Rightarrow> decorateRanges punctuation settings v viewIsActive mappedFile state' ranges)"

text \<open>
  \<open>buildDecorations(view, viewIsActive)\<close>; it returns the cache next to the decorations,
  since the scan changes the cache.
\<close>

definition buildDecorations ::
  "jsstring list \<Rightarrow> linkerSettings \<Rightarrow> (nat \<rightharpoonup> tfile option) \<Rightarrow> editorView \<Rightarrow> bool \<Rightarrow> linkerCache
     \<Rightarrow> jserror + (linkerCache \<times> liveLinkWidget decoration list)" where
  "buildDecorations punctuation settings viewUpdateDomToFileMap v viewIsActive lc =
     (let mappedFile = (case viewUpdateDomToFileMap (vdom v) of None \<Rightarrow> None | Some f \<Rightarrow> f)
      in decorateRanges punctuation settings v viewIsActive mappedFile (lc, []) (visibleRanges v))"

section \<open>\<open>update\<close> of \<open>src/linker/liveLinker.ts\<close>\<close>

text \<open>
  \<open>isDescendant(parent, child, maxDepth)\<close>: the loop runs while \<open>node != null\<close> and
  \<open>depth < maxDepth\<close>; the last argument of \<open>isDescendantLoop\<close> is \<open>maxDepth - depth\<close>.
\<close>

fun isDescendantLoop :: "(nat \<rightharpoonup> nat) \<Rightarrow> nat \<Rightarrow> nat option \<Rightarrow> nat \<Rightarrow> bool" where
  "isDescendantLoop parentNode parent node 0 = False"
| "isDescendantLoop parentNode parent None (Suc n) = False"
| "isDescendantLoop parentNode parent (Some nd) (Suc n) =
     (if nd = parent then True else isDescendantLoop parentNode parent (parentNode nd) n)"

definition isDescendant :: "(nat \<rightharpoonup> nat) \<Rightarrow> nat \<Rightarrow> nat \<Rightarrow> nat \<Rightarrow> bool" where
  "isDescendant parentNode parent child maxDepth =
     isDescendantLoop parentNode parent (parentNode child) maxDepth"

record markdownView =
  contentEl :: nat
  viewFile :: "tfile option"

text \<open>
  What \<open>update\<close> reads from the application: the active Markdown view, the path of the
  active file, the DOM tree and the notes of the vault.
\<close>

record workspace =
  activeView :: "markdownView option"
  activeFile :: "string option"
  parentNode :: "nat \<rightharpoonup> nat"
  vault :: "vaultNote list"

record viewUpdate =
  view :: editorView
  docChanged :: bool
  viewportChanged :: bool

record autoLinkerPlugin =
  decorations :: "liveLinkWidget decoration list"
  linkerCacheOf :: linkerCache
  lastCursorPos :: int
  lastActiveFile :: string
  lastViewUpdate :: "viewUpdate option"
  viewUpdateDomToFileMap :: "nat \<rightharpoonup> tfile option"

text \<open>The first block of \<open>update\<close>: it computes \<open>updateIsOnActiveView\<close> and may store the file of the view.\<close>

definition noteActiveView ::
  "linkerSettings \<Rightarrow> workspace \<Rightarrow> viewUpdate \<Rightarrow> autoLinkerPlugin \<Rightarrow> bool \<times> autoLinkerPlugin" where
  "noteActiveView settings ws upd this =
     (if excludeLinksInCurrentLine settings \<or> excludeLinksToOwnNote settings then
        (let domFromUpdate = vdom (view upd);
             domFromWorkspace = map_option contentEl (activeView ws);
             updateIsOnActiveView =
               (case domFromWorkspace of
                  None \<Rightarrow> False
                | Some d \<Rightarrow> isDescendant (parentNode ws) d domFromUpdate 3)
         in (updateIsOnActiveView,
             if updateIsOnActiveView then
               this\<lparr>viewUpdateDomToFileMap :=
                      (viewUpdateDomToFileMap this)
                        (domFromUpdate \<mapsto> (case activeView ws of None \<Rightarrow> None | Some av \<Rightarrow> viewFile av))\<rparr>
             else this))
      else (False, this))"

definition update ::
  "jsstring list \<Rightarrow> linkerSettings \<Rightarrow> workspace \<Rightarrow> viewUpdate \<Rightarrow> bool \<Rightarrow> autoLinkerPlugin
     \<Rightarrow> jserror + autoLinkerPlugin" where
  "update punctuation settings ws upd force this0 =
     (let updateIsOnActiveView = fst (noteActiveView settings ws upd this0);
          this = snd (noteActiveView settings ws upd this0);
          cursorPos = selectionMainFrom (view upd);
          fileChanged = (activeFile ws \<noteq> Some (lastActiveFile this))
      in if force \<or> lastCursorPos this \<noteq> cursorPos \<or> docChanged upd \<or> fileChanged
            \<or> viewportChanged upd then
           (let this1 = this\<lparr>lastCursorPos := cursorPos\<rparr>;
                this2 = this1\<lparr>linkerCacheOf := updateCache force (vault ws) (linkerCacheOf this1)\<rparr>
            in case buildDecorations punctuation settings (viewUpdateDomToFileMap this2) (view upd)
                      updateIsOnActiveView (linkerCacheOf this2) of
                 Inl e \<Rightarrow> Inl e
               | Inr built \<Rightarrow>
                   Inr (this2\<lparr>linkerCacheOf := fst built,
                              decorations := snd built,
                              lastActiveFile := (case activeFile ws of None \<Rightarrow> [] | Some p \<Rightarrow> p),
                              lastViewUpdate := Some upd\<rparr>))
         else Inr (this\<lparr>lastViewUpdate := Some upd\<rparr>))"

section \<open>The glossary plugin, \<open>src/glossary/liveLinker.ts\<close>\<close>

definition glossary_scanStep ::
  "jsstring list \<Rightarrow> int \<Rightarrow> jsstring \<Rightarrow> nat \<Rightarrow> jsstring
     \<Rightarrow> glossaryWidget scanState \<Rightarrow> glossaryWidget scanState" where
  "glossary_scanStep punctuation vfrom text i char st =
     (let st1 =
            (if checkWordBoundary punctuation char then
               (let currentNodes = getCurrentMatchNodes (cache (scache st)) i None
                in case currentNodes of
                     [] \<Rightarrow> st
                   | node # _ \<Rightarrow>
                       (let nFrom = mstart node;
                            nTo = mend node;
                            name = slice text nFrom nTo;
                            file = firstFile (mfiles node)
                        in st\<lparr>additions := additions st @
                                 [\<lparr>aid = nextId st, afrom = vfrom + int nFrom, ato = vfrom + int nTo,
                                   widget = \<lparr>gtext = name, glinkFile = file\<rparr>\<rparr>],
                               nextId := Suc (nextId st)\<rparr>))
             else st)
      in st1\<lparr>scache := (scache st1)\<lparr>cache := pushChar char (cache (scache st1))\<rparr>\<rparr>)"

definition glossary_decorateRange ::
  "jsstring list \<Rightarrow> editorView \<Rightarrow> linkerCache \<times> glossaryWidget decoration list \<Rightarrow> int \<times> int
     \<Rightarrow> jserror + (linkerCache \<times> glossaryWidget decoration list)" where
  "glossary_decorateRange punctuation v state vrange =
     (let vfrom = fst vrange; vto = snd vrange;
          lc = cacheReset (fst state);
          text = sliceString (doc v) vfrom vto
      in case scanLoop (glossary_scanStep punctuation vfrom text) text 0
                \<lparr>scache = lc, additions = [], nextId = 0\<rparr> of
           Inl e \<Rightarrow> Inl e
         | Inr st \<Rightarrow>
             (let sorted = glossary_sortAdditions (additions st);
                  filteredAdditions = glossary_filterAdditions sorted;
                  excludedIntervalTree =
                    iterateNodes glossary_excludedTypes (syntaxTreeIterate v vfrom vto) [];
                  cursorPos = selectionMainFrom v
              in Inr (scache st,
                      glossary_emitDecorations excludedIntervalTree cursorPos (snd state)
                        filteredAdditions)))"

fun glossary_decorateRanges ::
  "jsstring list \<Rightarrow> editorView \<Rightarrow> linkerCache \<times> glossaryWidget decoration list \<Rightarrow> (int \<times> int) list
     \<Rightarrow> jserror + (linkerCache \<times> glossaryWidget decoration list)" where
  "glossary_decorateRanges punctuation v state [] = Inr state"
| "glossary_decorateRanges punctuation v state (vrange # ranges) =
     (case glossary_decorateRange punctuation v state vrange of
        Inl e \<Rightarrow> Inl e
      | Inr state' \<Rightarrow> glossary_decorateRanges punctuation v state' ranges)"

definition glossary_buildDecorations ::
  "jsstring list \<Rightarrow> editorView \<Rightarrow> linkerCache
     \<Rightarrow> jserror + (linkerCache \<times> glossaryWidget decoration list)" where
  "glossary_buildDecorations punctuation v lc =
     glossary_decorateRanges punctuation v (lc, []) (visibleRanges v)"

record glossaryPlugin =
  gdecorations :: "glossaryWidget decoration list"
  glinkerCache :: linkerCache
  glastCursorPos :: int
  glastActiveFile :: string

text \<open>\<open>update(update)\<close> of the glossary plugin; \<open>updateCache()\<close> is called without \<open>force\<close>.\<close>

definition glossary_update ::
  "jsstring list \<Rightarrow> workspace \<Rightarrow> viewUpdate \<Rightarrow> glossaryPlugin \<Rightarrow> jserror + glossaryPlugin" where
  "glossary_update punctuation ws upd this =
     (let cursorPos = selectionMainFrom (view upd);
          fileChanged = (activeFile ws \<noteq> Some (glastActiveFile this))
      in if glastCursorPos this \<noteq> cursorPos \<or> docChanged upd \<or> fileChanged
            \<or> viewportChanged upd then
           (let this1 = this\<lparr>glastCursorPos := cursorPos\<rparr>;
                this2 = this1\<lparr>glinkerCache := updateCache False (vault ws) (glinkerCache this1)\<rparr>
            in case glossary_buildDecorations punctuation (view upd) (glinkerCache this2) of
                 Inl e \<Rightarrow> Inl e
               | Inr built \<Rightarrow>
                   Inr (this2\<lparr>glinkerCache := fst built,
                              gdecorations := snd built,
                              glastActiveFile := (case activeFile ws of None \<Rightarrow> [] | Some p \<Rightarrow> p)\<rparr>))
         else Inr this)"

section \<open>Auxiliary notions for the statements and proofs\<close>

subsection \<open>Sorted lists, marked ids, overlap\<close>

text \<open>
  A candidate list in ascending order of \<open>from\<close>, and one in the order of the
  comparator (\<open>from\<close> ascending, then \<open>to\<close> descending).
\<close>

definition fromSorted :: "'w addition list \<Rightarrow> bool" where
  "fromSorted xs = sorted_wrt (\<lambda>a b. afrom a \<le> afrom b) xs"

definition additionsSorted :: "'w addition list \<Rightarrow> bool" where
  "additionsSorted xs = sorted_wrt (\<lambda>a b. compareAdditions a b \<le> 0) xs"

text \<open>
  The ids that the two marking loops enter into \<open>additionsToDelete\<close>: for each
  candidate, the ids of the run of later candidates that start before its end.
\<close>

fun markedIds :: "'w addition list \<Rightarrow> nat set" where
  "markedIds [] = {}"
| "markedIds (a # rest) = aid ` set (takeWhile (\<lambda>b. afrom b < ato a) rest) \<union> markedIds rest"

text \<open>
  Two half-open spans \<open>[from, to)\<close> overlap.
\<close>

definition spansOverlap :: "'w addition \<Rightarrow> 'w addition \<Rightarrow> bool" where
  "spansOverlap a b = (afrom a < ato b \<and> afrom b < ato a)"

subsection \<open>Concrete candidate lists\<close>

text \<open>
  Three candidates as the scanner reports them for the text \<open>aa bb cc dd\<close> and the
  entries \<open>aa bb\<close>, \<open>bb cc\<close> and \<open>cc dd\<close>.
\<close>

definition exA :: "unit addition" where "exA = \<lparr>aid = 0, afrom = 0, ato = 5, widget = ()\<rparr>"

definition exB :: "unit addition" where "exB = \<lparr>aid = 1, afrom = 3, ato = 8, widget = ()\<rparr>"

definition exC :: "unit addition" where "exC = \<lparr>aid = 2, afrom = 6, ato = 11, widget = ()\<rparr>"

text \<open>
  The candidates for the entries \<open>Note\<close> and \<open>Notebook\<close> in the text
  \<open>I love my Notebook today\<close>.
\<close>

definition exNote :: "unit addition" where "exNote = \<lparr>aid = 0, afrom = 10, ato = 14, widget = ()\<rparr>"

definition exNotebook :: "unit addition" where "exNotebook = \<lparr>aid = 1, afrom = 10, ato = 18, widget = ()\<rparr>"

text \<open>
  The candidates for the entries \<open>a b\<close>, \<open>b c\<close> and \<open>b c d\<close> in the text
  \<open>a b c d\<close>.
\<close>

definition exP :: "unit addition" where "exP = \<lparr>aid = 0, afrom = 0, ato = 3, widget = ()\<rparr>"

definition exShort :: "unit addition" where "exShort = \<lparr>aid = 1, afrom = 2, ato = 5, widget = ()\<rparr>"

definition exLong :: "unit addition" where "exLong = \<lparr>aid = 2, afrom = 2, ato = 7, widget = ()\<rparr>"

subsection \<open>The condition of the filter\<close>

text \<open>
  The condition under which the \<open>forEach\<close> callback adds a candidate to the builder,
  and the range it adds. The glossary plugin's condition is the one with
  \<open>excludeLine = False\<close>.
\<close>

definition keepAddition :: "intervalTree \<Rightarrow> int \<Rightarrow> bool \<Rightarrow> int \<Rightarrow> int \<Rightarrow> 'w addition \<Rightarrow> bool" where
  "keepAddition tree cursorPos excludeLine lineStart lineEnd a =
     (treeSearch tree (afrom a, ato a) = []
      \<and> \<not> (afrom a \<le> cursorPos \<and> cursorPos \<le> ato a)
      \<and> \<not> (excludeLine \<and> lineStart \<le> afrom a \<and> ato a \<le> lineEnd))"

definition toDecoration :: "'w addition \<Rightarrow> 'w decoration" where
  "toDecoration a = \<lparr>dfrom = afrom a, dto = ato a, dwidget = widget a\<rparr>"

text \<open>
  A syntax node of a link that starts inside the candidate for \<open>Notebook\<close>.
\<close>

definition exLinkNode :: syntaxNode where
  "exLinkNode = \<lparr>ntype = ''hmd-internal-link'', nfrom = 16, nto = 30\<rparr>"

subsection \<open>Characters and visited positions\<close>

text \<open>
  A well-formed surrogate pair starts at index \<open>i\<close> of the string, and the character
  that stands at \<open>i\<close>: the pair, or else the single code unit, also when that is a
  surrogate without a partner.
\<close>

definition pairAt :: "jsstring \<Rightarrow> nat \<Rightarrow> bool" where
  "pairAt s i = (i + 1 < length s \<and> isHighSurrogate (s ! i) \<and> isLowSurrogate (s ! (i + 1)))"

definition decodedAt :: "jsstring \<Rightarrow> nat \<Rightarrow> jsstring" where
  "decodedAt s i = (if pairAt s i then [s ! i, s ! (i + 1)] else [s ! i])"

text \<open>
  The indices at which the loop body runs from index \<open>i\<close> on, each with the value of
  \<open>char\<close>. The loop is shown below to run its body over exactly this list.
\<close>

function scanPositions :: "jsstring \<Rightarrow> nat \<Rightarrow> (nat \<times> jsstring) list" where
  "scanPositions s i =
     (if i < length s then (i, decodedAt s i) # scanPositions s (i + length (decodedAt s i))
      else if i = length s then [(i, newline)]
      else [])"
  by pat_completeness auto
termination
  by (relation "measure (\<lambda>(s, i). length s - i)") (auto simp: decodedAt_def)

declare scanPositions.simps [simp del]

text \<open>
  The letter \<open>a\<close>, a character outside the basic plane (a surrogate pair) and a high
  surrogate that stands alone.
\<close>

definition exText :: jsstring where
  "exText = [0x61, 0xD83D, 0xDE00, 0xD83D]"

subsection \<open>The scanned character\<close>

text \<open>
  The value of \<open>char\<close> in the iteration at index \<open>i\<close>: the character that stands at
  \<open>i\<close>, or the newline when \<open>i\<close> is the length of the text.
\<close>

definition scannedChar :: "jsstring \<Rightarrow> nat \<Rightarrow> jsstring" where
  "scannedChar s i = (if i < length s then decodedAt s i else newline)"

subsection \<open>A vault with one note, and views of it\<close>

text \<open>
  The code units of a text in ASCII.
\<close>

definition utf16 :: "string \<Rightarrow> jsstring" where
  "utf16 cs = map (\<lambda>c. of_nat (of_char c)) cs"

text \<open>
  A vault whose one note is \<open>Note.md\<close> with the title \<open>Note\<close>, the cache after a
  forced update from it, and settings with sub-word matching enabled.
\<close>

definition exVault :: "vaultNote list" where
  "exVault = [\<lparr>notePath = ''Note.md'', noteTitle = utf16 ''Note'', noteAliases = []\<rparr>]"

definition exCache :: linkerCache where
  "exCache = updateCache True exVault
     \<lparr>cache = \<lparr>root = PrefixNode [] [], current = [], offset = 0\<rparr>, dictionary = [],
      pendingUpdate = False\<rparr>"

definition exSettings :: linkerSettings where
  "exSettings = \<lparr>matchOnlyWholeWords = False, excludeLinksToOwnNote = False,
     excludeLinksInCurrentLine = False, includeHeaders = False\<rparr>"

text \<open>
  What holds of every candidate the linker's scan of the text \<open>s\<close> reports: its end
  lies in the window, and its flag is the negation of the boundary test on the character
  scanned at its end.
\<close>

definition flagOk :: "jsstring list \<Rightarrow> linkerSettings \<Rightarrow> int \<Rightarrow> jsstring \<Rightarrow> liveLinkWidget addition \<Rightarrow> bool" where
  "flagOk punctuation settings vfrom s a =
     (vfrom \<le> ato a \<and> nat (ato a - vfrom) \<le> length s
      \<and> isSubWord (widget a) = (\<not> checkWordBoundary punctuation (scannedChar s (nat (ato a - vfrom))))
      \<and> \<not> (matchOnlyWholeWords settings \<and> isSubWord (widget a)))"

text \<open>
  The trie for the one entry \<open>Note\<close>.
\<close>

definition exTrie :: prefixNode where
  "exTrie = PrefixNode [] [([0x4E], PrefixNode [] [([0x6F], PrefixNode []
        [([0x74], PrefixNode [] [([0x65], PrefixNode [''Note.md''] [])])])])]"

text \<open>
  A view of the document \<open>xNote \<close> with DOM element 2 inside the content element 1 of
  the active Markdown view, whose file \<open>A.md\<close> is the active file; an update of that view
  that changes neither the document nor the viewport; and plugins whose recorded cursor
  position and file are those of the update.
\<close>

definition exView :: editorView where
  "exView = \<lparr>vdom = 2, doc = utf16 ''xNote '', visibleRanges = [(0, 6)], selectionMainFrom = 0,
     syntaxTreeIterate = (\<lambda>vfrom vto. []), lineAt = (\<lambda>pos. (0, 6))\<rparr>"

definition exUpdate :: viewUpdate where
  "exUpdate = \<lparr>view = exView, docChanged = False, viewportChanged = False\<rparr>"

definition exWorkspace :: workspace where
  "exWorkspace = \<lparr>activeView = Some \<lparr>contentEl = 1, viewFile = Some ''A.md''\<rparr>,
     activeFile = Some ''A.md'', parentNode = [2 \<mapsto> 1], vault = exVault\<rparr>"

definition exOwnNoteSettings :: linkerSettings where
  "exOwnNoteSettings = \<lparr>matchOnlyWholeWords = False, excludeLinksToOwnNote = True,
     excludeLinksInCurrentLine = False, includeHeaders = False\<rparr>"

definition exPlugin :: autoLinkerPlugin where
  "exPlugin = \<lparr>decorations = [], linkerCacheOf = exCache, lastCursorPos = 0,
     lastActiveFile = ''A.md'', lastViewUpdate = None, viewUpdateDomToFileMap = Map.empty\<rparr>"

definition exGlossaryPlugin :: glossaryPlugin where
  "exGlossaryPlugin = \<lparr>gdecorations = [], glinkerCache = exCache, glastCursorPos = 0,
     glastActiveFile = ''A.md''\<rparr>"

section \<open>The sort\<close>

lemma compare_le_iff:
  "compareAdditions a b \<le> 0 \<longleftrightarrow> afrom a < afrom b \<or> (afrom a = afrom b \<and> ato b \<le> ato a)"
  by (auto simp: compareAdditions_def)

lemma set_insertAddition: "set (insertAddition a xs) = insert a (set xs)"
  by (induction xs) auto

lemma set_sortAdditions: "set (sortAdditions xs) = set xs"
  by (induction xs) (auto simp: set_insertAddition)

lemma length_insertAddition: "length (insertAddition a xs) = Suc (length xs)"
  by (induction xs) auto

lemma length_sortAdditions: "length (sortAdditions xs) = length xs"
  by (induction xs) (auto simp: length_insertAddition)

lemma ids_insertAddition: "set (map aid (insertAddition a xs)) = insert (aid a) (set (map aid xs))"
  by (induction xs) auto

lemma distinct_ids_insertAddition:
  "distinct (map aid (insertAddition a xs)) \<longleftrightarrow> aid a \<notin> aid ` set xs \<and> distinct (map aid xs)"
  by (induction xs) (auto simp: set_insertAddition)

lemma distinct_ids_sortAdditions:
  "distinct (map aid (sortAdditions xs)) \<longleftrightarrow> distinct (map aid xs)"
  by (induction xs) (auto simp: distinct_ids_insertAddition set_sortAdditions)

lemma sorted_insertAddition:
  "additionsSorted xs \<Longrightarrow> additionsSorted (insertAddition a xs)"
  unfolding additionsSorted_def
  by (induction xs) (auto simp: set_insertAddition compare_le_iff)

lemma sorted_sortAdditions: "additionsSorted (sortAdditions xs)"
proof (induction xs)
  case Nil show ?case by (simp add: additionsSorted_def)
next
  case (Cons a xs) then show ?case by (simp add: sorted_insertAddition)
qed

lemma additionsSorted_fromSorted: "additionsSorted xs \<Longrightarrow> fromSorted xs"
  unfolding additionsSorted_def fromSorted_def
  by (erule sorted_wrt_mono_rel[rotated]) (auto simp: compare_le_iff)

section \<open>The marking loops\<close>

lemma dom_markFollowing:
  "dom (markFollowing a rest del) = dom del \<union> aid ` set (takeWhile (\<lambda>b. afrom b < ato a) rest)"
  by (induction rest arbitrary: del) (auto simp: not_le)

lemma dom_markOverlaps: "dom (markOverlaps xs del) = dom del \<union> markedIds xs"
  by (induction xs arbitrary: del) (auto simp: dom_markFollowing)

lemma filterAdditions_marked:
  "filterAdditions xs = filter (\<lambda>a. aid a \<notin> markedIds xs) xs"
proof -
  have "(markOverlaps xs Map.empty k = None) = (k \<notin> dom (markOverlaps xs Map.empty))" for k
    by (simp add: domIff)
  then have "(markOverlaps xs Map.empty k = None) = (k \<notin> markedIds xs)" for k
    by (simp only: dom_markOverlaps dom_empty Un_empty_left)
  then show ?thesis by (simp add: filterAdditions_def)
qed

lemma takeWhile_fromSorted:
  "fromSorted rest \<Longrightarrow> takeWhile (\<lambda>b. afrom b < t) rest = filter (\<lambda>b. afrom b < t) rest"
  unfolding fromSorted_def
proof (induction rest)
  case Nil then show ?case by simp
next
  case (Cons b rest)
  then show ?case 
    by (auto intro!: filter_False[symmetric] simp: not_less) 
qed

lemma markedIds_sorted_Cons:
  "fromSorted (a # rest) \<Longrightarrow>
   markedIds (a # rest) = aid ` {b \<in> set rest. afrom b < ato a} \<union> markedIds rest"
  using takeWhile_fromSorted[of rest "ato a"] by (auto simp: fromSorted_def)

lemma nonoverlap_filter_general:
  "fromSorted xs \<Longrightarrow> markedIds xs \<subseteq> D \<Longrightarrow>
   sorted_wrt (\<lambda>a b. ato a \<le> afrom b) (filter (\<lambda>a. aid a \<notin> D) xs)"
proof (induction xs)
  case Nil then show ?case by simp
next
  case (Cons a rest)
  from Cons.prems(1) have sr: "fromSorted rest" by (simp add: fromSorted_def)
  have eq: "markedIds (a # rest) = aid ` {b \<in> set rest. afrom b < ato a} \<union> markedIds rest"
    using Cons.prems(1) by (rule markedIds_sorted_Cons)
  from Cons.prems(2) have m: "aid ` {b \<in> set rest. afrom b < ato a} \<subseteq> D" "markedIds rest \<subseteq> D"
    unfolding eq by auto
  have ih: "sorted_wrt (\<lambda>a b. ato a \<le> afrom b) (filter (\<lambda>a. aid a \<notin> D) rest)"
    using Cons.IH sr m(2) by simp
  have "ato a \<le> afrom b" if "b \<in> set rest" "aid b \<notin> D" for b
    using that m(1) by (auto simp: not_less[symmetric])
  with ih show ?case by simp
qed

lemma filterAdditions_nonoverlap:
  "fromSorted xs \<Longrightarrow> sorted_wrt (\<lambda>a b. ato a \<le> afrom b) (filterAdditions xs)"
  by (simp add: filterAdditions_marked nonoverlap_filter_general)

lemma filterAdditions_fromSorted:
  "fromSorted xs \<Longrightarrow> fromSorted (filterAdditions xs)"
  by (simp add: filterAdditions_marked fromSorted_def sorted_wrt_filter)

lemma ex_pair_Cons:
  "(\<exists>i j. i < j \<and> j < length (a # rest) \<and> P ((a # rest) ! i) ((a # rest) ! j)) \<longleftrightarrow>
   (\<exists>b \<in> set rest. P a b) \<or> (\<exists>i j. i < j \<and> j < length rest \<and> P (rest ! i) (rest ! j))"
  (is "?L \<longleftrightarrow> ?R")
proof
  assume ?L
  then obtain i j where ij: "i < j" "j < length (a # rest)" "P ((a # rest) ! i) ((a # rest) ! j)"
    by blast
  from ij(1) obtain j' where j': "j = Suc j'" by (cases j) auto
  show ?R
  proof (cases i)
    case 0
    with ij j' have "rest ! j' \<in> set rest" "P a (rest ! j')" by auto
    then show ?thesis by blast
  next
    case (Suc i')
    with ij j' have "i' < j'" "j' < length rest" "P (rest ! i') (rest ! j')" by auto
    then show ?thesis by blast
  qed
next
  assume ?R
  then show ?L
  proof
    assume "\<exists>b \<in> set rest. P a b"
    then obtain k where "k < length rest" "P a (rest ! k)" by (auto simp: in_set_conv_nth)
    then have "0 < Suc k \<and> Suc k < length (a # rest) \<and> P ((a # rest) ! 0) ((a # rest) ! Suc k)"
      by simp
    then show ?L by blast
  next
    assume "\<exists>i j. i < j \<and> j < length rest \<and> P (rest ! i) (rest ! j)"
    then obtain i j where "i < j" "j < length rest" "P (rest ! i) (rest ! j)" by blast
    then have "Suc i < Suc j \<and> Suc j < length (a # rest)
        \<and> P ((a # rest) ! Suc i) ((a # rest) ! Suc j)" by simp
    then show ?L by blast
  qed
qed

lemma markedIds_sorted_iff:
  "fromSorted xs \<Longrightarrow>
   k \<in> markedIds xs \<longleftrightarrow>
     (\<exists>i j. i < j \<and> j < length xs \<and> (aid (xs ! j) = k \<and> afrom (xs ! j) < ato (xs ! i)))"
proof (induction xs)
  case Nil then show ?case by simp
next
  case (Cons a rest)
  from Cons.prems have sr: "fromSorted rest" by (simp add: fromSorted_def)
  have eq: "markedIds (a # rest) = aid ` {b \<in> set rest. afrom b < ato a} \<union> markedIds rest"
    using Cons.prems by (rule markedIds_sorted_Cons)
  have "k \<in> markedIds (a # rest) \<longleftrightarrow>
      (\<exists>b \<in> set rest. aid b = k \<and> afrom b < ato a) \<or> k \<in> markedIds rest"
    unfolding eq by auto
  also have "\<dots> \<longleftrightarrow> (\<exists>b \<in> set rest. aid b = k \<and> afrom b < ato a) \<or>
      (\<exists>i j. i < j \<and> j < length rest \<and> (aid (rest ! j) = k \<and> afrom (rest ! j) < ato (rest ! i)))"
    using Cons.IH[OF sr] by simp
  also have "\<dots> \<longleftrightarrow> (\<exists>i j. i < j \<and> j < length (a # rest) \<and>
      (aid ((a # rest) ! j) = k \<and> afrom ((a # rest) ! j) < ato ((a # rest) ! i)))"
    by (rule ex_pair_Cons[where P = "\<lambda>x y. aid y = k \<and> afrom y < ato x", symmetric])
  finally show ?case .
qed

lemma kept_iff_sorted:
  assumes "fromSorted xs" "distinct (map aid xs)" "j < length xs"
  shows "xs ! j \<in> set (filterAdditions xs) \<longleftrightarrow> (\<forall>i<j. ato (xs ! i) \<le> afrom (xs ! j))"
proof -
  have "xs ! j \<in> set (filterAdditions xs) \<longleftrightarrow> aid (xs ! j) \<notin> markedIds xs"
    using assms(3) by (simp add: filterAdditions_marked)
  also have "\<dots> \<longleftrightarrow> \<not> (\<exists>i j'. i < j' \<and> j' < length xs \<and>
      (aid (xs ! j') = aid (xs ! j) \<and> afrom (xs ! j') < ato (xs ! i)))"
    using markedIds_sorted_iff[OF assms(1)] by simp
  also have "\<dots> \<longleftrightarrow> (\<forall>i<j. ato (xs ! i) \<le> afrom (xs ! j))"
  proof -
    have same: "j' = j" if "j' < length xs" "aid (xs ! j') = aid (xs ! j)" for j'
      using that assms(2,3) by (simp add: nth_eq_iff_index_eq[of "map aid xs", symmetric])
    show ?thesis
    proof
      assume n: "\<not> (\<exists>i j'. i < j' \<and> j' < length xs \<and>
        (aid (xs ! j') = aid (xs ! j) \<and> afrom (xs ! j') < ato (xs ! i)))"
      show "\<forall>i<j. ato (xs ! i) \<le> afrom (xs ! j)"
      proof (intro allI impI)
        fix i assume "i < j"
        with n assms(3) have "\<not> afrom (xs ! j) < ato (xs ! i)" by blast
        then show "ato (xs ! i) \<le> afrom (xs ! j)" by simp
      qed
    next
      assume a: "\<forall>i<j. ato (xs ! i) \<le> afrom (xs ! j)"
      show "\<not> (\<exists>i j'. i < j' \<and> j' < length xs \<and>
        (aid (xs ! j') = aid (xs ! j) \<and> afrom (xs ! j') < ato (xs ! i)))"
      proof
        assume "\<exists>i j'. i < j' \<and> j' < length xs \<and>
          (aid (xs ! j') = aid (xs ! j) \<and> afrom (xs ! j') < ato (xs ! i))"
        then obtain i j' where h: "i < j'" "j' < length xs" "aid (xs ! j') = aid (xs ! j)"
          "afrom (xs ! j') < ato (xs ! i)" by blast
        from same[OF h(2,3)] h(1,4) a show False by auto
      qed
    qed
  qed
  finally show ?thesis .
qed

section \<open>The two copies of the overlap resolution\<close>

lemma glossary_compare_eq: "glossary_compareAdditions a b = compareAdditions a b"
  by (simp add: glossary_compareAdditions_def compareAdditions_def)

lemma glossary_insert_eq: "glossary_insertAddition a xs = insertAddition a xs"
  by (induction xs) (simp_all add: glossary_compare_eq)

lemma glossary_sort_eq: "glossary_sortAdditions xs = sortAdditions xs"
  by (induction xs) (simp_all add: glossary_insert_eq)

lemma glossary_markFollowing_eq: "glossary_markFollowing a rest del = markFollowing a rest del"
  by (induction rest arbitrary: del) simp_all

lemma glossary_markOverlaps_eq: "glossary_markOverlaps xs del = markOverlaps xs del"
  by (induction xs arbitrary: del) (simp_all add: glossary_markFollowing_eq)

lemma glossary_filter_eq: "glossary_filterAdditions xs = filterAdditions xs"
  by (simp add: glossary_filterAdditions_def filterAdditions_def glossary_markOverlaps_eq)

lemma glossary_resolve_eq: "glossary_resolveOverlaps xs = resolveOverlaps xs"
  by (simp add: glossary_resolveOverlaps_def resolveOverlaps_def glossary_filter_eq glossary_sort_eq)

text \<open>
  Claim C9. The overlap resolution of \<open>src/linker/liveLinker.ts\<close> and the one of
  \<open>src/glossary/liveLinker.ts\<close> are the same function of the candidate list: the sort,
  the mark-and-filter step and their composition agree on every input.
\<close>

theorem resolvers_equal:
  "(resolveOverlaps :: 'w addition list \<Rightarrow> 'w addition list) = glossary_resolveOverlaps
   \<and> (sortAdditions :: 'w addition list \<Rightarrow> 'w addition list) = glossary_sortAdditions
   \<and> (filterAdditions :: 'w addition list \<Rightarrow> 'w addition list) = glossary_filterAdditions"
  by (intro conjI ext) (simp_all add: glossary_resolve_eq glossary_sort_eq glossary_filter_eq)

section \<open>Which candidates the resolver keeps\<close>

lemma overlap_sorted_pair:
  assumes "fromSorted xs" "i < j" "j < length xs" "afrom (xs ! j) < ato (xs ! j)"
  shows "spansOverlap (xs ! i) (xs ! j) \<longleftrightarrow> afrom (xs ! j) < ato (xs ! i)"
proof -
  have "afrom (xs ! i) \<le> afrom (xs ! j)"
    using assms(1-3) by (simp add: fromSorted_def sorted_wrt_iff_nth_less)
  with assms(4) show ?thesis by (auto simp: spansOverlap_def)
qed

text \<open>
  Claim C2, as amended. In a candidate list that is sorted by the comparator, has distinct
  ids and only non-empty spans, a candidate is in the resolver's output exactly when it
  overlaps no candidate before it in the list, whether that earlier candidate is itself
  kept or superseded. In particular every candidate that overlaps no predecessor is kept.
  This holds for the loops of both plugins.
\<close>

theorem kept_iff_no_overlapping_predecessor:
  assumes "additionsSorted xs" and "distinct (map aid xs)"
    and "\<forall>a \<in> set xs. afrom a < ato a" and "j < length xs"
  shows "(xs ! j \<in> set (filterAdditions xs) \<longleftrightarrow> (\<forall>i<j. \<not> spansOverlap (xs ! i) (xs ! j)))
       \<and> (xs ! j \<in> set (glossary_filterAdditions xs) \<longleftrightarrow> (\<forall>i<j. \<not> spansOverlap (xs ! i) (xs ! j)))"
proof -
  have fs: "fromSorted xs" using assms(1) by (rule additionsSorted_fromSorted)
  have ne: "afrom (xs ! j) < ato (xs ! j)" using assms(3,4) by simp
  have "(\<forall>i<j. \<not> spansOverlap (xs ! i) (xs ! j)) \<longleftrightarrow> (\<forall>i<j. ato (xs ! i) \<le> afrom (xs ! j))"
    using overlap_sorted_pair[OF fs _ assms(4) ne] by (auto simp: not_less)
  then show ?thesis
    using kept_iff_sorted[OF fs assms(2,4)] by (simp add: glossary_filter_eq)
qed

text \<open>
  Claim C2 as stated fails. In the sorted list \<open>[exA, exB, exC]\<close> the candidate \<open>exB\<close>
  is superseded by \<open>exA\<close>, and \<open>exC\<close> overlaps \<open>exB\<close> only: the one kept candidate,
  \<open>exA\<close>, does not overlap \<open>exC\<close>. The outer loop still runs the inner loop for
  \<open>exB\<close>, so \<open>exC\<close> is dropped although it overlaps no kept predecessor.
\<close>

theorem superseded_predecessor_counterexample:
  "additionsSorted [exA, exB, exC]
   \<and> filterAdditions [exA, exB, exC] = [exA]
   \<and> glossary_filterAdditions [exA, exB, exC] = [exA]
   \<and> \<not> spansOverlap exA exC
   \<and> exC \<notin> set (filterAdditions [exA, exB, exC])"
  by (simp add: additionsSorted_def compareAdditions_def filterAdditions_def
        glossary_filterAdditions_def spansOverlap_def exA_def exB_def exC_def)

text \<open>
  The amended claim C2 at the list \<open>[exA, exB, exC]\<close>.
\<close>

theorem kept_iff_no_overlapping_predecessor_witness:
  "exA \<in> set (filterAdditions [exA, exB, exC])
   \<and> exB \<notin> set (filterAdditions [exA, exB, exC])
   \<and> exC \<notin> set (glossary_filterAdditions [exA, exB, exC])"
proof -
  have s: "additionsSorted [exA, exB, exC]"
    by (simp add: additionsSorted_def compareAdditions_def exA_def exB_def exC_def)
  have d: "distinct (map aid [exA, exB, exC])"
    by (simp add: exA_def exB_def exC_def)
  have n: "\<forall>a \<in> set [exA, exB, exC]. afrom a < ato a"
    by (simp add: exA_def exB_def exC_def)
  have "\<forall>i<(0::nat). \<not> spansOverlap ([exA, exB, exC] ! i) ([exA, exB, exC] ! 0)" by simp
  then have a: "[exA, exB, exC] ! 0 \<in> set (filterAdditions [exA, exB, exC])"
    using kept_iff_no_overlapping_predecessor[OF s d n, of 0] by simp
  have "\<not> (\<forall>i<(1::nat). \<not> spansOverlap ([exA, exB, exC] ! i) ([exA, exB, exC] ! 1))"
    by (simp add: spansOverlap_def exA_def exB_def exC_def)
  then have b: "[exA, exB, exC] ! 1 \<notin> set (filterAdditions [exA, exB, exC])"
    using kept_iff_no_overlapping_predecessor[OF s d n, of 1] by simp
  have "\<not> (\<forall>i<(2::nat). \<not> spansOverlap ([exA, exB, exC] ! i) ([exA, exB, exC] ! 2))"
    by (auto simp: spansOverlap_def exA_def exB_def exC_def intro!: exI[of _ 1])
  then have c: "[exA, exB, exC] ! 2 \<notin> set (glossary_filterAdditions [exA, exB, exC])"
    using kept_iff_no_overlapping_predecessor[OF s d n, of 2] by simp
  from a b c show ?thesis by simp
qed

section \<open>Longest match\<close>

lemma sorted_order_index:
  assumes "additionsSorted S" "ip < length S" "ic < length S"
    and "\<not> compareAdditions (S ! ic) (S ! ip) \<le> 0"
  shows "ip < ic"
proof (rule ccontr)
  assume "\<not> ip < ic"
  then consider "ic < ip" | "ic = ip" by linarith
  then show False
  proof cases
    case 1
    with assms(1,2) have "compareAdditions (S ! ic) (S ! ip) \<le> 0"
      by (simp add: additionsSorted_def sorted_wrt_iff_nth_less)
    with assms(4) show False by simp
  next
    case 2
    with assms(4) show False by (simp add: compareAdditions_def)
  qed
qed

lemma shorter_dropped:
  assumes "a \<in> set xs" "b \<in> set xs" "afrom a = afrom b" "ato a < ato b" "afrom a < ato a"
    and "distinct (map aid xs)"
  shows "a \<notin> set (resolveOverlaps xs)"
proof -
  let ?S = "sortAdditions xs"
  have srt: "additionsSorted ?S" by (rule sorted_sortAdditions)
  have fs: "fromSorted ?S" using srt by (rule additionsSorted_fromSorted)
  have dist: "distinct (map aid ?S)" using assms(6) by (simp add: distinct_ids_sortAdditions)
  from assms(1) have "a \<in> set ?S" by (simp add: set_sortAdditions)
  then obtain ia where ia: "ia < length ?S" "?S ! ia = a"
    by (auto simp: in_set_conv_nth)
  from assms(2) have "b \<in> set ?S" by (simp add: set_sortAdditions)
  then obtain ib where ib: "ib < length ?S" "?S ! ib = b"
    by (auto simp: in_set_conv_nth)
  have "\<not> compareAdditions (?S ! ia) (?S ! ib) \<le> 0"
    using assms(3,4) ia ib by (simp add: compareAdditions_def)
  then have "ib < ia" using sorted_order_index[OF srt ib(1) ia(1)] by simp
  moreover have "\<not> ato (?S ! ib) \<le> afrom (?S ! ia)" using ia ib assms(3,4,5) by simp
  ultimately have "\<not> (\<forall>i<ia. ato (?S ! i) \<le> afrom (?S ! ia))" by blast
  then have "?S ! ia \<notin> set (filterAdditions ?S)"
    using kept_iff_sorted[OF fs dist ia(1)] by simp
  then show ?thesis using ia by (simp add: resolveOverlaps_def)
qed

lemma longer_kept_iff:
  assumes "b \<in> set xs" "afrom b < ato b" "distinct (map aid xs)"
  shows "(\<exists>c \<in> set (resolveOverlaps xs). afrom c = afrom b \<and> ato c = ato b) \<longleftrightarrow>
         (\<forall>p \<in> set xs. (afrom p < afrom b \<longrightarrow> ato p \<le> afrom b)
                      \<and> (afrom p = afrom b \<longrightarrow> ato p \<le> ato b))"
    (is "?L \<longleftrightarrow> ?R")
proof
  let ?S = "sortAdditions xs"
  have srt: "additionsSorted ?S" by (rule sorted_sortAdditions)
  have fs: "fromSorted ?S" using srt by (rule additionsSorted_fromSorted)
  have dist: "distinct (map aid ?S)" using assms(3) by (simp add: distinct_ids_sortAdditions)
  {
    assume ?L
    then obtain c where c: "c \<in> set (filterAdditions ?S)" "afrom c = afrom b" "ato c = ato b"
      by (auto simp: resolveOverlaps_def)
    then have "c \<in> set ?S" by (simp add: filterAdditions_marked)
    then obtain ic where ic: "ic < length ?S" "?S ! ic = c" by (auto simp: in_set_conv_nth)
    have kept: "\<forall>i<ic. ato (?S ! i) \<le> afrom (?S ! ic)"
      using kept_iff_sorted[OF fs dist ic(1)] c(1) ic(2) by simp
    show ?R
    proof (intro ballI conjI impI)
      fix p assume p: "p \<in> set xs" and lt: "afrom p < afrom b"
      from p have "p \<in> set ?S" by (simp add: set_sortAdditions)
      then obtain ip where ip: "ip < length ?S" "?S ! ip = p"
        by (auto simp: in_set_conv_nth)
      have "\<not> compareAdditions (?S ! ic) (?S ! ip) \<le> 0"
        using lt ic ip c by (simp add: compareAdditions_def)
      then have "ip < ic" using sorted_order_index[OF srt ip(1) ic(1)] by simp
      with kept have "ato (?S ! ip) \<le> afrom (?S ! ic)" by blast
      then show "ato p \<le> afrom b" by (simp only: ip(2) ic(2) c(2))
    next
      fix p assume p: "p \<in> set xs" and eq: "afrom p = afrom b"
      from p have "p \<in> set ?S" by (simp add: set_sortAdditions)
      then obtain ip where ip: "ip < length ?S" "?S ! ip = p"
        by (auto simp: in_set_conv_nth)
      show "ato p \<le> ato b"
      proof (rule ccontr)
        assume "\<not> ato p \<le> ato b"
        then have gt: "ato b < ato p" by simp
        then have "\<not> compareAdditions (?S ! ic) (?S ! ip) \<le> 0"
          using eq ic ip c by (simp add: compareAdditions_def)
        then have "ip < ic" using sorted_order_index[OF srt ip(1) ic(1)] by simp
        with kept have "ato (?S ! ip) \<le> afrom (?S ! ic)" by blast
        then have "ato p \<le> afrom b" by (simp only: ip(2) ic(2) c(2))
        with gt assms(2) show False by simp
      qed
    qed
  }
  {
    assume r: ?R
    define J where "J = {j. j < length ?S \<and> afrom (?S ! j) = afrom b \<and> ato (?S ! j) = ato b}"
    from assms(1) have "b \<in> set ?S" by (simp add: set_sortAdditions)
    then obtain ib where ib: "ib < length ?S" "?S ! ib = b"
      by (auto simp: in_set_conv_nth)
    then have "ib \<in> J" by (simp add: J_def)
    define j where "j = (LEAST j. j \<in> J)"
    have jJ: "j \<in> J" unfolding j_def using \<open>ib \<in> J\<close> by (rule LeastI)
    have least: "i \<notin> J" if "i < j" for i
      using that not_less_Least[of i "\<lambda>j. j \<in> J"] by (simp add: j_def)
    from jJ have j: "j < length ?S" "afrom (?S ! j) = afrom b" "ato (?S ! j) = ato b"
      by (simp_all add: J_def)
    have "ato (?S ! i) \<le> afrom (?S ! j)" if "i < j" for i
    proof -
      have il: "i < length ?S" using that j(1) by simp
      then have pin: "?S ! i \<in> set xs"
        using nth_mem[OF il] by (simp only: set_sortAdditions)
      have "compareAdditions (?S ! i) (?S ! j) \<le> 0"
        using srt that j(1) by (simp add: additionsSorted_def sorted_wrt_iff_nth_less)
      then consider "afrom (?S ! i) < afrom b"
        | "afrom (?S ! i) = afrom b" "ato b \<le> ato (?S ! i)"
        using j by (auto simp: compare_le_iff)
      then show ?thesis
      proof cases
        case 1
        from bspec[OF r pin] 1 have "ato (?S ! i) \<le> afrom b" by blast
        then show ?thesis by (simp only: j(2))
      next
        case 2
        from bspec[OF r pin] 2(1) have "ato (?S ! i) \<le> ato b" by blast
        with 2(2) have "ato (?S ! i) = ato b" by simp
        with 2 il have "i \<in> J" by (simp add: J_def)
        with least[OF that] show ?thesis by simp
      qed
    qed
    then have "?S ! j \<in> set (filterAdditions ?S)"
      using kept_iff_sorted[OF fs dist j(1)] by simp
    with j show ?L by (auto simp: resolveOverlaps_def)
  }
qed

text \<open>
  Claim C3, as amended. When two candidates \<open>a\<close> and \<open>b\<close> start at the same offset and
  \<open>b\<close> is the longer one (ids distinct, \<open>a\<close> not empty), the shorter candidate \<open>a\<close> is
  never in the resolved output; and the output holds a candidate with the span of \<open>b\<close>
  exactly when no candidate that starts before that offset ends after it and no
  candidate at that offset is longer than \<open>b\<close>.
\<close>

theorem longest_match_precedence:
  assumes "a \<in> set xs" and "b \<in> set xs" and "afrom a = afrom b" and "ato a < ato b"
    and "afrom a < ato a" and "distinct (map aid xs)"
  shows "a \<notin> set (resolveOverlaps xs)
       \<and> ((\<exists>c \<in> set (resolveOverlaps xs). afrom c = afrom b \<and> ato c = ato b) \<longleftrightarrow>
          (\<forall>p \<in> set xs. (afrom p < afrom b \<longrightarrow> ato p \<le> afrom b)
                       \<and> (afrom p = afrom b \<longrightarrow> ato p \<le> ato b)))"
proof -
  have "afrom b < ato b" using assms(3,4,5) by simp
  then show ?thesis
    using shorter_dropped[OF assms] longer_kept_iff[OF assms(2) _ assms(6)] by simp
qed

lemma resolve_exNote: "resolveOverlaps [exNote, exNotebook] = [exNotebook]"
  by (simp add: resolveOverlaps_def filterAdditions_def compareAdditions_def
        exNote_def exNotebook_def)

text \<open>
  The amended claim C3 at the candidates for \<open>Note\<close> and \<open>Notebook\<close>.
\<close>

theorem longest_match_precedence_witness:
  "exNote \<notin> set (resolveOverlaps [exNote, exNotebook])
   \<and> (\<exists>c \<in> set (resolveOverlaps [exNote, exNotebook]). afrom c = 10 \<and> ato c = 18)"
proof -
  have h: "exNote \<in> set [exNote, exNotebook]" "exNotebook \<in> set [exNote, exNotebook]"
    "afrom exNote = afrom exNotebook" "ato exNote < ato exNotebook" "afrom exNote < ato exNote"
    "distinct (map aid [exNote, exNotebook])"
    by (simp_all add: exNote_def exNotebook_def)
  have "exNote \<notin> set (resolveOverlaps [exNote, exNotebook])"
    using longest_match_precedence[OF h] by (rule conjunct1)
  moreover have "afrom exNotebook = 10" "ato exNotebook = 18" by (simp_all add: exNotebook_def)
  ultimately show ?thesis by (simp add: resolve_exNote)
qed

text \<open>
  Claim C3 as stated fails. \<open>exShort\<close> and \<open>exLong\<close> start at the same offset, but the
  candidate \<open>exP\<close> starts before them and ends after their start: it supersedes both, and
  the output does not contain the span of the longer one.
\<close>

theorem longest_match_counterexample:
  "afrom exShort = afrom exLong \<and> ato exShort < ato exLong
   \<and> resolveOverlaps [exP, exShort, exLong] = [exP]
   \<and> exLong \<notin> set (resolveOverlaps [exP, exShort, exLong])"
  by (simp add: resolveOverlaps_def filterAdditions_def compareAdditions_def
        exP_def exShort_def exLong_def)

section \<open>The emitted decorations\<close>

lemma emitAddition_keep:
  "emitAddition tree c el ls le builder a =
     (if keepAddition tree c el ls le a then builder @ [toDecoration a] else builder)"
  by (auto simp: emitAddition_def keepAddition_def toDecoration_def Let_def)

lemma emitDecorations_filter:
  "emitDecorations tree c el ls le builder xs =
     builder @ map toDecoration (filter (keepAddition tree c el ls le) xs)"
  unfolding emitDecorations_def
  by (induction xs arbitrary: builder) (simp_all add: emitAddition_keep)

lemma glossary_emitAddition_keep:
  "glossary_emitAddition tree c builder a =
     (if keepAddition tree c False 0 0 a then builder @ [toDecoration a] else builder)"
  by (auto simp: glossary_emitAddition_def keepAddition_def toDecoration_def Let_def)

lemma glossary_emitDecorations_filter:
  "glossary_emitDecorations tree c builder xs =
     builder @ map toDecoration (filter (keepAddition tree c False 0 0) xs)"
  unfolding glossary_emitDecorations_def
  by (induction xs arbitrary: builder) (simp_all add: glossary_emitAddition_keep)

lemma sorted_decorations:
  assumes "fromSorted xs"
  shows "sorted_wrt (\<lambda>d e. dfrom d \<le> dfrom e \<and> dto d \<le> dfrom e)
           (map toDecoration (filter P (filterAdditions xs)))"
proof -
  have a: "sorted_wrt (\<lambda>a b. afrom a \<le> afrom b) (filter P (filterAdditions xs))"
    using filterAdditions_fromSorted[OF assms] by (simp add: fromSorted_def sorted_wrt_filter)
  have b: "sorted_wrt (\<lambda>a b. ato a \<le> afrom b) (filter P (filterAdditions xs))"
    using filterAdditions_nonoverlap[OF assms] by (simp add: sorted_wrt_filter)
  have "sorted_wrt (\<lambda>a b. afrom a \<le> afrom b \<and> ato a \<le> afrom b) (filter P (filterAdditions xs))"
    using a b by (simp add: sorted_wrt_iff_nth_less)
  then show ?thesis by (simp add: sorted_wrt_map toDecoration_def)
qed

section \<open>The scan loop never raises\<close>

lemma unit_le: "unat (u :: 16 word) \<le> 0xFFFF"
  using unsigned_less[of u, where 'a = nat] by simp

lemma pair_le:
  assumes "isHighSurrogate u" "isLowSurrogate w"
  shows "(unat u - 0xD800) * 0x400 + (unat w - 0xDC00) + 0x10000 \<le> 0x10FFFF"
proof -
  from assms have "unat u \<le> 0xDBFF" "unat w \<le> 0xDFFF"
    by (simp_all add: isHighSurrogate_def isLowSurrogate_def word_le_nat_alt)
  then show ?thesis by simp
qed

lemma codePointAt_range:
  assumes "i < length s"
  shows "\<exists>n. codePointAt s i = Some n \<and> n \<le> 0x10FFFF"
proof (cases "isHighSurrogate (s ! i) \<and> i + 1 \<noteq> length s \<and> isLowSurrogate (s ! (i + 1))")
  case True
  then have "codePointAt s i =
      Some ((unat (s ! i) - 0xD800) * 0x400 + (unat (s ! (i + 1)) - 0xDC00) + 0x10000)"
    using assms by (simp add: codePointAt_def Let_def)
  with pair_le[of "s ! i" "s ! (i + 1)"] True show ?thesis by simp
next
  case False
  then have "codePointAt s i = Some (unat (s ! i))"
    using assms by (auto simp: codePointAt_def Let_def)
  with unit_le[of "s ! i"] show ?thesis by simp
qed

lemma currentChar_Inr: "\<exists>c. currentChar s i = Inr c"
proof (cases "i < length s")
  case False
  then show ?thesis by (simp add: currentChar_def)
next
  case True
  from codePointAt_range[OF True] obtain n where "codePointAt s i = Some n" "n \<le> 0x10FFFF"
    by blast
  with True show ?thesis by (simp add: currentChar_def fromCodePoint_def)
qed

lemma scanLoop_Inr: "\<exists>st'. scanLoop body s i st = Inr st'"
proof (induction body s i st rule: scanLoop.induct)
  case (1 body s i st)
  show ?case
  proof (cases "i \<le> length s")
    case False
    then show ?thesis by (subst scanLoop.simps) simp
  next
    case True
    obtain c where c: "currentChar s i = Inr c" using currentChar_Inr by blast
    from "1.IH"[OF True c] obtain st' where
      "scanLoop body s (i + length c) (body i c st) = Inr st'" by blast
    with True c show ?thesis by (subst scanLoop.simps) simp
  qed
qed

text \<open>
  Claim C1. For every visible range, every document, every state of the cache and every
  setting, \<open>buildDecorations\<close> completes the pass over the range, and whatever
  candidates the scan reports, the decorations
  \<open>ds\<close> it adds to the builder are in ascending order of \<open>from\<close> and pairwise
  non-overlapping: each one ends at or before the start of every later one. This holds
  for both plugins.
\<close>

theorem decorations_sorted_nonoverlapping:
  "(\<exists>lc' ds. decorateRange punctuation settings v viewIsActive mappedFile (lc, builder) vrange
                = Inr (lc', builder @ ds)
            \<and> sorted_wrt (\<lambda>d e. dfrom d \<le> dfrom e \<and> dto d \<le> dfrom e) ds)
   \<and> (\<exists>lc' ds. glossary_decorateRange punctuation v (lc, gbuilder) vrange = Inr (lc', gbuilder @ ds)
            \<and> sorted_wrt (\<lambda>d e. dfrom d \<le> dfrom e \<and> dto d \<le> dfrom e) ds)"
proof
  let ?text = "sliceString (doc v) (fst vrange) (snd vrange)"
  obtain st where st: "scanLoop (scanStep punctuation settings mappedFile (fst vrange) ?text) ?text 0
      \<lparr>scache = cacheReset lc, additions = [], nextId = 0\<rparr> = Inr st"
    using scanLoop_Inr[of "scanStep punctuation settings mappedFile (fst vrange) ?text" ?text 0
        "\<lparr>scache = cacheReset lc, additions = [], nextId = 0\<rparr>"] by blast
  have "fromSorted (sortAdditions (additions st))"
    by (rule additionsSorted_fromSorted[OF sorted_sortAdditions])
  then show "\<exists>lc' ds. decorateRange punctuation settings v viewIsActive mappedFile (lc, builder) vrange
                = Inr (lc', builder @ ds)
            \<and> sorted_wrt (\<lambda>d e. dfrom d \<le> dfrom e \<and> dto d \<le> dfrom e) ds"
    using st by (simp add: decorateRange_def Let_def emitDecorations_filter sorted_decorations)
next
  let ?text = "sliceString (doc v) (fst vrange) (snd vrange)"
  obtain st where st: "scanLoop (glossary_scanStep punctuation (fst vrange) ?text) ?text 0
      \<lparr>scache = cacheReset lc, additions = [], nextId = 0\<rparr> = Inr st"
    using scanLoop_Inr[of "glossary_scanStep punctuation (fst vrange) ?text" ?text 0
        "\<lparr>scache = cacheReset lc, additions = [], nextId = 0\<rparr>"] by blast
  have "fromSorted (sortAdditions (additions st))"
    by (rule additionsSorted_fromSorted[OF sorted_sortAdditions])
  then show "\<exists>lc' ds. glossary_decorateRange punctuation v (lc, gbuilder) vrange = Inr (lc', gbuilder @ ds)
            \<and> sorted_wrt (\<lambda>d e. dfrom d \<le> dfrom e \<and> dto d \<le> dfrom e) ds"
    using st
    by (simp add: glossary_decorateRange_def Let_def glossary_emitDecorations_filter
          glossary_sort_eq glossary_filter_eq sorted_decorations)
qed

section \<open>Structural and cursor exclusion\<close>

lemma enterNode_mono: "k \<in> set tree \<Longrightarrow> k \<in> set (enterNode types n tree)"
  by (induction types arbitrary: tree) (simp_all add: treeInsert_def)

lemma enterNode_inserts:
  "t \<in> set types \<Longrightarrow> contains (ntype n) t \<Longrightarrow> (nfrom n, nto n) \<in> set (enterNode types n tree)"
proof (induction types arbitrary: tree)
  case Nil then show ?case by simp
next
  case (Cons t' types)
  show ?case
  proof (cases "t = t'")
    case True
    with Cons.prems(2) have "(nfrom n, nto n) \<in> set (if contains (ntype n) t'
        then treeInsert (nfrom n, nto n) tree else tree)"
      by (simp add: treeInsert_def)
    then show ?thesis by (simp only: enterNode.simps enterNode_mono)
  next
    case False
    with Cons.prems(1) have "t \<in> set types" by simp
    from Cons.IH[OF this Cons.prems(2)] show ?thesis by (simp only: enterNode.simps)
  qed
qed

lemma iterateNodes_mono: "k \<in> set tree \<Longrightarrow> k \<in> set (iterateNodes types nodes tree)"
  by (induction nodes arbitrary: tree) (simp_all add: enterNode_mono)

lemma iterateNodes_inserts:
  "n \<in> set nodes \<Longrightarrow> t \<in> set types \<Longrightarrow> contains (ntype n) t \<Longrightarrow>
   (nfrom n, nto n) \<in> set (iterateNodes types nodes tree)"
proof (induction nodes arbitrary: tree)
  case Nil then show ?case by simp
next
  case (Cons m nodes)
  show ?case
  proof (cases "n = m")
    case True
    have "(nfrom n, nto n) \<in> set (enterNode types m tree)"
      using enterNode_inserts[OF Cons.prems(2,3)] True by simp
    then show ?thesis by (simp only: iterateNodes.simps iterateNodes_mono)
  next
    case False
    with Cons.prems(1) have "n \<in> set nodes" by simp
    from Cons.IH[OF this Cons.prems(2,3)] show ?thesis by (simp only: iterateNodes.simps)
  qed
qed

lemma treeSearch_empty_iff:
  "treeSearch tree q = [] \<longleftrightarrow> (\<forall>k \<in> set tree. \<not> intersect k q)"
  by (simp add: treeSearch_def filter_empty_conv)

lemma intersect_commute: "intersect a b = intersect b a"
  by (auto simp: intersect_def)

lemma excluded_not_kept:
  assumes "n \<in> set nodes" "t \<in> set types" "contains (ntype n) t"
    and "intersect (afrom a, ato a) (nfrom n, nto n)"
  shows "\<not> keepAddition (iterateNodes types nodes []) c el ls le a"
proof -
  have "(nfrom n, nto n) \<in> set (iterateNodes types nodes [])"
    using assms(1-3) by (rule iterateNodes_inserts)
  moreover have "intersect (nfrom n, nto n) (afrom a, ato a)"
    using assms(4) by (simp only: intersect_commute)
  ultimately have "treeSearch (iterateNodes types nodes []) (afrom a, ato a) \<noteq> []"
    unfolding treeSearch_empty_iff by blast
  then show ?thesis by (simp add: keepAddition_def)
qed

lemma keep_same_span:
  "afrom b = afrom a \<Longrightarrow> ato b = ato a \<Longrightarrow>
   keepAddition tree c el ls le b = keepAddition tree c el ls le a"
  by (simp add: keepAddition_def)

lemma emitted_span_kept:
  assumes "d \<in> set (map toDecoration (filter (keepAddition tree c el ls le) xs))"
    and "dfrom d = afrom a \<and> dto d = ato a"
  shows "keepAddition tree c el ls le a"
proof -
  from assms(1) obtain b where b: "b \<in> set (filter (keepAddition tree c el ls le) xs)"
    "d = toDecoration b"
    unfolding set_map by blast
  from b(1) have kb: "keepAddition tree c el ls le b" by simp
  from assms(2) have "afrom b = afrom a" "ato b = ato a"
    unfolding b(2) by (simp_all add: toDecoration_def)
  from keep_same_span[OF this] kb show ?thesis by (rule iffD1)
qed

text \<open>
  Claim C4. Let \<open>n\<close> be a node that \<open>iterate\<close> enters and whose type name contains one
  of the excluded type strings in effect (the linker's list for the setting
  \<open>includeHeaders\<close>, the glossary's fixed list), so that its interval is inserted into the
  exclusion index. If the span of a candidate \<open>a\<close> intersects that interval, then no
  decoration with the span of \<open>a\<close> is added to the builder, whatever list of surviving
  candidates is handed to the filter. Intervals are compared as the index compares them,
  as closed intervals; this covers every intersection of the half-open spans.
\<close>

theorem structural_exclusion:
  fixes a :: "'w addition" and filteredAdditions :: "'v addition list"
  assumes "n \<in> set nodes" and "intersect (afrom a, ato a) (nfrom n, nto n)"
  shows "(t \<in> set (excludedTypes headersIncluded) \<and> contains (ntype n) t \<longrightarrow>
          (\<forall>d \<in> set (emitDecorations (iterateNodes (excludedTypes headersIncluded) nodes [])
                        cursorPos excludeLine lineStart lineEnd [] filteredAdditions).
             \<not> (dfrom d = afrom a \<and> dto d = ato a)))
       \<and> (t \<in> set glossary_excludedTypes \<and> contains (ntype n) t \<longrightarrow>
          (\<forall>d \<in> set (glossary_emitDecorations (iterateNodes glossary_excludedTypes nodes [])
                        cursorPos [] filteredAdditions).
             \<not> (dfrom d = afrom a \<and> dto d = ato a)))"
proof (intro conjI impI ballI)
  fix d
  assume t: "t \<in> set (excludedTypes headersIncluded) \<and> contains (ntype n) t"
    and d: "d \<in> set (emitDecorations (iterateNodes (excludedTypes headersIncluded) nodes [])
                        cursorPos excludeLine lineStart lineEnd [] filteredAdditions)"
  from d have m: "d \<in> set (map toDecoration (filter (keepAddition
      (iterateNodes (excludedTypes headersIncluded) nodes []) cursorPos excludeLine lineStart lineEnd)
      filteredAdditions))"
    by (simp only: emitDecorations_filter append_Nil)
  have nk: "\<not> keepAddition (iterateNodes (excludedTypes headersIncluded) nodes [])
      cursorPos excludeLine lineStart lineEnd a"
    by (rule excluded_not_kept[OF assms(1) conjunct1[OF t] conjunct2[OF t] assms(2)])
  show "\<not> (dfrom d = afrom a \<and> dto d = ato a)"
  proof
    assume "dfrom d = afrom a \<and> dto d = ato a"
    from emitted_span_kept[OF m this] nk show False by (rule notE[rotated])
  qed
next
  fix d
  assume t: "t \<in> set glossary_excludedTypes \<and> contains (ntype n) t"
    and d: "d \<in> set (glossary_emitDecorations (iterateNodes glossary_excludedTypes nodes [])
                        cursorPos [] filteredAdditions)"
  from d have m: "d \<in> set (map toDecoration (filter (keepAddition
      (iterateNodes glossary_excludedTypes nodes []) cursorPos False 0 0) filteredAdditions))"
    by (simp only: glossary_emitDecorations_filter append_Nil)
  have nk: "\<not> keepAddition (iterateNodes glossary_excludedTypes nodes []) cursorPos False 0 0 a"
    by (rule excluded_not_kept[OF assms(1) conjunct1[OF t] conjunct2[OF t] assms(2)])
  show "\<not> (dfrom d = afrom a \<and> dto d = ato a)"
  proof
    assume "dfrom d = afrom a \<and> dto d = ato a"
    from emitted_span_kept[OF m this] nk show False by (rule notE[rotated])
  qed
qed

lemma contains_exLinkNode: "contains (ntype exLinkNode) ''internal-link''"
  by (simp add: exLinkNode_def)

text \<open>
  Claim C4 at the candidate for \<open>Notebook\<close> and a link node that starts inside it.
\<close>

theorem structural_exclusion_witness:
  "\<lparr>dfrom = 10, dto = 18, dwidget = ()\<rparr>
     \<notin> set (emitDecorations (iterateNodes (excludedTypes False) [exLinkNode] []) 0 False 0 0 []
              [exNotebook])
   \<and> \<lparr>dfrom = 10, dto = 18, dwidget = ()\<rparr>
     \<notin> set (glossary_emitDecorations (iterateNodes glossary_excludedTypes [exLinkNode] []) 0 []
              [exNotebook])"
proof -
  let ?d = "\<lparr>dfrom = 10, dto = 18, dwidget = ()\<rparr> :: unit decoration"
  have n: "exLinkNode \<in> set [exLinkNode]" by simp
  have i: "intersect (afrom exNotebook, ato exNotebook) (nfrom exLinkNode, nto exLinkNode)"
    by (simp add: intersect_def exNotebook_def exLinkNode_def)
  have t1: "''internal-link'' \<in> set (excludedTypes False)"
    by (simp add: excludedTypes_def)
  have t2: "''internal-link'' \<in> set glossary_excludedTypes"
    by (simp add: glossary_excludedTypes_def)
  have s: "dfrom ?d = afrom exNotebook \<and> dto ?d = ato exNotebook" by (simp add: exNotebook_def)
  note inst = structural_exclusion[OF n i, of "''internal-link''" False 0 False 0 0 "[exNotebook]"]
  have a: "\<forall>d \<in> set (emitDecorations (iterateNodes (excludedTypes False) [exLinkNode] [])
      0 False 0 0 [] [exNotebook]). \<not> (dfrom d = afrom exNotebook \<and> dto d = ato exNotebook)"
    using inst[THEN conjunct1] t1 contains_exLinkNode by blast
  have b: "\<forall>d \<in> set (glossary_emitDecorations (iterateNodes glossary_excludedTypes [exLinkNode] [])
      0 [] [exNotebook]). \<not> (dfrom d = afrom exNotebook \<and> dto d = ato exNotebook)"
    using inst[THEN conjunct2] t2 contains_exLinkNode by blast
  from a s have "?d \<notin> set (emitDecorations (iterateNodes (excludedTypes False) [exLinkNode] [])
      0 False 0 0 [] [exNotebook])" by blast
  moreover from b s have "?d \<notin> set (glossary_emitDecorations
      (iterateNodes glossary_excludedTypes [exLinkNode] []) 0 [] [exNotebook])" by blast
  ultimately show ?thesis by blast
qed

text \<open>
  Claim C5. No decoration added to the builder has the cursor offset \<open>c\<close> within
  \<open>from \<le> c \<le> to\<close>, so a candidate whose span holds the cursor, ends included, is
  suppressed in that pass. With the cursor at \<open>to + 1\<close>, a surviving candidate \<open>a\<close> is
  added, provided it passes the other filters: the exclusion index returns nothing for
  its span and, in the linker, the current-line rule does not apply to it. Both plugins.
\<close>

theorem cursor_exclusion:
  "(\<forall>d \<in> set (emitDecorations tree c excludeLine lineStart lineEnd [] filteredAdditions).
      \<not> (dfrom d \<le> c \<and> c \<le> dto d))
   \<and> (a \<in> set filteredAdditions \<and> treeSearch tree (afrom a, ato a) = []
        \<and> \<not> (excludeLine \<and> lineStart \<le> afrom a \<and> ato a \<le> lineEnd) \<longrightarrow>
      \<lparr>dfrom = afrom a, dto = ato a, dwidget = widget a\<rparr>
        \<in> set (emitDecorations tree (ato a + 1) excludeLine lineStart lineEnd [] filteredAdditions))
   \<and> (\<forall>d \<in> set (glossary_emitDecorations tree c [] filteredAdditions).
      \<not> (dfrom d \<le> c \<and> c \<le> dto d))
   \<and> (a \<in> set filteredAdditions \<and> treeSearch tree (afrom a, ato a) = [] \<longrightarrow>
      \<lparr>dfrom = afrom a, dto = ato a, dwidget = widget a\<rparr>
        \<in> set (glossary_emitDecorations tree (ato a + 1) [] filteredAdditions))"
proof (intro conjI)
  show "\<forall>d \<in> set (emitDecorations tree c excludeLine lineStart lineEnd [] filteredAdditions).
      \<not> (dfrom d \<le> c \<and> c \<le> dto d)"
    by (auto simp: emitDecorations_filter keepAddition_def toDecoration_def)
  show "\<forall>d \<in> set (glossary_emitDecorations tree c [] filteredAdditions).
      \<not> (dfrom d \<le> c \<and> c \<le> dto d)"
    by (auto simp: glossary_emitDecorations_filter keepAddition_def toDecoration_def)
  show "a \<in> set filteredAdditions \<and> treeSearch tree (afrom a, ato a) = []
        \<and> \<not> (excludeLine \<and> lineStart \<le> afrom a \<and> ato a \<le> lineEnd) \<longrightarrow>
      \<lparr>dfrom = afrom a, dto = ato a, dwidget = widget a\<rparr>
        \<in> set (emitDecorations tree (ato a + 1) excludeLine lineStart lineEnd [] filteredAdditions)"
  proof
    assume h: "a \<in> set filteredAdditions \<and> treeSearch tree (afrom a, ato a) = []
        \<and> \<not> (excludeLine \<and> lineStart \<le> afrom a \<and> ato a \<le> lineEnd)"
    then have "keepAddition tree (ato a + 1) excludeLine lineStart lineEnd a"
      by (simp add: keepAddition_def)
    with h have "toDecoration a \<in> set (map toDecoration
        (filter (keepAddition tree (ato a + 1) excludeLine lineStart lineEnd) filteredAdditions))"
      by simp
    then show "\<lparr>dfrom = afrom a, dto = ato a, dwidget = widget a\<rparr>
        \<in> set (emitDecorations tree (ato a + 1) excludeLine lineStart lineEnd [] filteredAdditions)"
      by (simp add: emitDecorations_filter toDecoration_def)
  qed
  show "a \<in> set filteredAdditions \<and> treeSearch tree (afrom a, ato a) = [] \<longrightarrow>
      \<lparr>dfrom = afrom a, dto = ato a, dwidget = widget a\<rparr>
        \<in> set (glossary_emitDecorations tree (ato a + 1) [] filteredAdditions)"
  proof
    assume h: "a \<in> set filteredAdditions \<and> treeSearch tree (afrom a, ato a) = []"
    then have "keepAddition tree (ato a + 1) False 0 0 a"
      by (simp add: keepAddition_def)
    with h have "toDecoration a \<in> set (map toDecoration
        (filter (keepAddition tree (ato a + 1) False 0 0) filteredAdditions))"
      by simp
    then show "\<lparr>dfrom = afrom a, dto = ato a, dwidget = widget a\<rparr>
        \<in> set (glossary_emitDecorations tree (ato a + 1) [] filteredAdditions)"
      by (simp add: glossary_emitDecorations_filter toDecoration_def)
  qed
qed

text \<open>
  Claim C5 at the candidate for \<open>Notebook\<close>, span \<open>[10, 18)\<close>: suppressed with the
  cursor at 18 or at 10, added with the cursor at 19.
\<close>

theorem cursor_exclusion_witness:
  "\<lparr>dfrom = 10, dto = 18, dwidget = ()\<rparr> \<notin> set (emitDecorations [] 18 False 0 0 [] [exNotebook])
   \<and> \<lparr>dfrom = 10, dto = 18, dwidget = ()\<rparr> \<in> set (emitDecorations [] 19 False 0 0 [] [exNotebook])
   \<and> \<lparr>dfrom = 10, dto = 18, dwidget = ()\<rparr> \<notin> set (glossary_emitDecorations [] 10 [] [exNotebook])
   \<and> \<lparr>dfrom = 10, dto = 18, dwidget = ()\<rparr> \<in> set (glossary_emitDecorations [] 19 [] [exNotebook])"
proof -
  let ?d = "\<lparr>dfrom = 10, dto = 18, dwidget = ()\<rparr> :: unit decoration"
  have s: "afrom exNotebook = 10" "ato exNotebook = 18" "widget exNotebook = ()"
    by (simp_all add: exNotebook_def)
  have m: "exNotebook \<in> set [exNotebook]" by simp
  have e: "treeSearch [] (afrom exNotebook, ato exNotebook) = []" by (simp add: treeSearch_def)
  have in18: "dfrom ?d \<le> 18 \<and> 18 \<le> dto ?d" by simp
  have in10: "dfrom ?d \<le> 10 \<and> 10 \<le> dto ?d" by simp
  have "\<forall>d \<in> set (emitDecorations [] 18 False 0 0 [] [exNotebook]). \<not> (dfrom d \<le> 18 \<and> 18 \<le> dto d)"
    using cursor_exclusion[of "[]" 18 False 0 0 "[exNotebook]" exNotebook] by (rule conjunct1)
  with in18 have a: "?d \<notin> set (emitDecorations [] 18 False 0 0 [] [exNotebook])" by blast
  have "\<forall>d \<in> set (glossary_emitDecorations [] 10 [] [exNotebook]). \<not> (dfrom d \<le> 10 \<and> 10 \<le> dto d)"
    using cursor_exclusion[of "[]" 10 False 0 0 "[exNotebook]" exNotebook] by blast
  with in10 have b: "?d \<notin> set (glossary_emitDecorations [] 10 [] [exNotebook])" by blast
  have "\<lparr>dfrom = afrom exNotebook, dto = ato exNotebook, dwidget = widget exNotebook\<rparr>
      \<in> set (emitDecorations [] (ato exNotebook + 1) False 0 0 [] [exNotebook])"
    using cursor_exclusion[of "[]" 0 False 0 0 "[exNotebook]" exNotebook] m e by blast
  then have c: "?d \<in> set (emitDecorations [] 19 False 0 0 [] [exNotebook])"
    by (simp only: s) simp
  have "\<lparr>dfrom = afrom exNotebook, dto = ato exNotebook, dwidget = widget exNotebook\<rparr>
      \<in> set (glossary_emitDecorations [] (ato exNotebook + 1) [] [exNotebook])"
    using cursor_exclusion[of "[]" 0 False 0 0 "[exNotebook]" exNotebook] m e by blast
  then have d: "?d \<in> set (glossary_emitDecorations [] 19 [] [exNotebook])"
    by (simp only: s) simp
  from a b c d show ?thesis by blast
qed

section \<open>The positions the scan loop visits\<close>

lemma word16_of_unat_sum:
  assumes "n + k = unat (u :: 16 word)"
  shows "(of_nat (n + k) :: 16 word) = u"
  using assms by simp

lemma fromCodePoint_unit: "fromCodePoint (Some (unat (u :: 16 word))) = Inr [u]"
  using unit_le[of u] by (simp add: fromCodePoint_def)

lemma fromCodePoint_pair:
  assumes "isHighSurrogate u" "isLowSurrogate w"
  shows "fromCodePoint (Some ((unat u - 0xD800) * 0x400 + (unat w - 0xDC00) + 0x10000)) = Inr [u, w]"
proof -
  from assms have u: "0xD800 \<le> unat u" "unat u \<le> 0xDBFF" and w: "0xDC00 \<le> unat w" "unat w \<le> 0xDFFF"
    by (simp_all add: isHighSurrogate_def isLowSurrogate_def word_le_nat_alt)
  define a where "a = unat u - 0xD800"
  define b where "b = unat w - 0xDC00"
  have ab: "a \<le> 0x3FF" "b < 0x400" "a + 0xD800 = unat u" "b + 0xDC00 = unat w"
    using u w by (simp_all add: a_def b_def)
  have d: "(a * 0x400 + b) div 0x400 = a" and m: "(a * 0x400 + b) mod 0x400 = b"
    using ab(2) by simp_all
  have le: "a * 0x400 + b + 0x10000 \<le> 0x10FFFF" using ab(1,2) by simp
  have gt: "\<not> a * 0x400 + b + 0x10000 \<le> 0xFFFF" by simp
  have "fromCodePoint (Some (a * 0x400 + b + 0x10000)) =
      Inr [of_nat (a + 0xD800), of_nat (b + 0xDC00)]"
    using le gt d m by (simp add: fromCodePoint_def)
  also have "(of_nat (a + 0xD800) :: 16 word) = u" using ab(3) by (rule word16_of_unat_sum)
  also have "(of_nat (b + 0xDC00) :: 16 word) = w" using ab(4) by (rule word16_of_unat_sum)
  finally show ?thesis by (simp only: a_def b_def)
qed

lemma currentChar_decoded:
  assumes "i < length s"
  shows "currentChar s i = Inr (decodedAt s i)"
proof (cases "pairAt s i")
  case True
  then have "codePointAt s i =
      Some ((unat (s ! i) - 0xD800) * 0x400 + (unat (s ! (i + 1)) - 0xDC00) + 0x10000)"
    using assms by (simp add: codePointAt_def pairAt_def Let_def)
  with True assms show ?thesis
    by (simp add: currentChar_def decodedAt_def pairAt_def fromCodePoint_pair)
next
  case False
  then have "codePointAt s i = Some (unat (s ! i))"
    using assms by (auto simp: codePointAt_def pairAt_def Let_def)
  with False assms show ?thesis
    by (simp add: currentChar_def decodedAt_def fromCodePoint_unit)
qed

lemma currentChar_end: "currentChar s (length s) = Inr newline"
  by (simp add: currentChar_def)

lemma scanLoop_fold:
  "scanLoop body s i st = Inr (foldl (\<lambda>st p. body (fst p) (snd p) st) st (scanPositions s i))"
proof (induction body s i st rule: scanLoop.induct)
  case (1 body s i st)
  consider "i < length s" | "i = length s" | "length s < i" by linarith
  then show ?case
  proof cases
    case 1
    note lt = this
    have c: "currentChar s i = Inr (decodedAt s i)" using lt by (rule currentChar_decoded)
    have le: "i \<le> length s" using lt by simp
    have "scanLoop body s i st = scanLoop body s (i + length (decodedAt s i)) (body i (decodedAt s i) st)"
      using le c by (subst scanLoop.simps) simp
    also have "\<dots> = Inr (foldl (\<lambda>st p. body (fst p) (snd p) st) (body i (decodedAt s i) st)
        (scanPositions s (i + length (decodedAt s i))))"
      by (rule "1.IH"[OF le c])
    also have "\<dots> = Inr (foldl (\<lambda>st p. body (fst p) (snd p) st) st (scanPositions s i))"
      using lt by (subst (2) scanPositions.simps) simp
    finally show ?thesis .
  next
    case 2
    have "scanLoop body s i st = scanLoop body s (i + length newline) (body i newline st)"
      using 2 currentChar_end[of s] by (subst scanLoop.simps) simp
    also have "\<dots> = Inr (body i newline st)"
      using 2 by (subst scanLoop.simps) (simp add: newline_def)
    also have "\<dots> = Inr (foldl (\<lambda>st p. body (fst p) (snd p) st) st (scanPositions s i))"
      using 2 by (subst scanPositions.simps) simp
    finally show ?thesis .
  next
    case 3
    then show ?thesis
      by (subst scanLoop.simps, subst scanPositions.simps) simp
  qed
qed

lemma foldl_record: "foldl (\<lambda>tr p. tr @ [p]) acc ps = acc @ ps"
  by (induction ps arbitrary: acc) simp_all

lemma scanLoop_record:
  "scanLoop (\<lambda>i char tr. tr @ [(i, char)]) s i acc = Inr (acc @ scanPositions s i)"
  by (simp add: scanLoop_fold foldl_record)

lemma next_le: "i < length s \<Longrightarrow> i + length (decodedAt s i) \<le> length s"
  by (simp add: decodedAt_def pairAt_def)

lemma scanPositions_step:
  "i < length s \<Longrightarrow>
   scanPositions s i = (i, decodedAt s i) # scanPositions s (i + length (decodedAt s i))"
  by (subst scanPositions.simps) simp

lemma scanPositions_end: "scanPositions s (length s) = [(length s, newline)]"
  by (subst scanPositions.simps) simp

lemma scanPositions_hd:
  "i \<le> length s \<Longrightarrow> scanPositions s i \<noteq> [] \<and> fst (hd (scanPositions s i)) = i"
  by (cases "i < length s") (simp_all add: scanPositions_step scanPositions_end)

lemma scanPositions_last:
  "i \<le> length s \<Longrightarrow> last (scanPositions s i) = (length s, newline)"
proof (induction s i rule: scanPositions.induct)
  case (1 s i)
  show ?case
  proof (cases "i < length s")
    case True
    from "1.IH"[OF True next_le[OF True]] scanPositions_hd[OF next_le[OF True]]
    show ?thesis by (simp add: scanPositions_step[OF True])
  next
    case False
    with "1.prems" have "i = length s" by simp
    then show ?thesis by (simp add: scanPositions_end)
  qed
qed

lemma scanPositions_ge: "p \<in> set (scanPositions s i) \<Longrightarrow> i \<le> fst p"
proof (induction s i rule: scanPositions.induct)
  case (1 s i)
  show ?case
  proof (cases "i < length s")
    case True
    from "1.prems" have "p = (i, decodedAt s i) \<or> p \<in> set (scanPositions s (i + length (decodedAt s i)))"
      by (simp add: scanPositions_step[OF True])
    then show ?thesis
    proof
      assume "p = (i, decodedAt s i)" then show ?thesis by simp
    next
      assume "p \<in> set (scanPositions s (i + length (decodedAt s i)))"
      from "1.IH"[OF True this] show ?thesis by simp
    qed
  next
    case False
    with "1.prems" show ?thesis by (subst (asm) scanPositions.simps) (auto split: if_splits)
  qed
qed

lemma decoded_nonempty: "0 < length (decodedAt s i)"
  by (simp add: decodedAt_def)

lemma scanPositions_increasing: "sorted_wrt (<) (map fst (scanPositions s i))"
proof (induction s i rule: scanPositions.induct)
  case (1 s i)
  show ?case
  proof (cases "i < length s")
    case True
    have "i < fst p" if "p \<in> set (scanPositions s (i + length (decodedAt s i)))" for p
      using scanPositions_ge[OF that] decoded_nonempty[of s i] by arith
    with "1.IH"[OF True] show ?thesis by (auto simp: scanPositions_step[OF True])
  next
    case False
    then show ?thesis by (subst scanPositions.simps) simp
  qed
qed

lemma scanPositions_successive:
  "successively (\<lambda>p q. fst q = fst p + length (snd p)) (scanPositions s i)"
proof (induction s i rule: scanPositions.induct)
  case (1 s i)
  show ?case
  proof (cases "i < length s")
    case True
    let ?rest = "scanPositions s (i + length (decodedAt s i))"
    from scanPositions_hd[OF next_le[OF True]] obtain q qs where q: "?rest = q # qs"
      "fst q = i + length (decodedAt s i)"
      by (cases ?rest) auto
    from "1.IH"[OF True] q show ?thesis by (simp add: scanPositions_step[OF True])
  next
    case False
    then show ?thesis by (subst scanPositions.simps) simp
  qed
qed

lemma scanPositions_decoded:
  "p \<in> set (butlast (scanPositions s i)) \<Longrightarrow> fst p < length s \<and> snd p = decodedAt s (fst p)"
proof (induction s i rule: scanPositions.induct)
  case (1 s i)
  show ?case
  proof (cases "i < length s")
    case True
    let ?rest = "scanPositions s (i + length (decodedAt s i))"
    have ne: "?rest \<noteq> []" using scanPositions_hd[OF next_le[OF True]] by simp
    from "1.prems" ne have "p = (i, decodedAt s i) \<or> p \<in> set (butlast ?rest)"
      by (simp add: scanPositions_step[OF True])
    then show ?thesis
    proof
      assume "p = (i, decodedAt s i)" with True show ?thesis by simp
    next
      assume "p \<in> set (butlast ?rest)"
      from "1.IH"[OF True this] show ?thesis .
    qed
  next
    case False
    with "1.prems" show ?thesis by (subst (asm) scanPositions.simps) (auto split: if_splits)
  qed
qed

lemma surrogates_disjoint: "isLowSurrogate u \<Longrightarrow> \<not> isHighSurrogate u"
  by (simp add: isLowSurrogate_def isHighSurrogate_def word_le_nat_alt)

lemma no_pair_before_next:
  assumes "i < length s"
  shows "\<not> pairAt s (i + length (decodedAt s i) - 1)"
proof (cases "pairAt s i")
  case True
  then have "isLowSurrogate (s ! (i + 1))" by (simp add: pairAt_def)
  then have "\<not> isHighSurrogate (s ! (i + 1))" by (rule surrogates_disjoint)
  then have "\<not> pairAt s (i + 1)" by (simp add: pairAt_def)
  with True show ?thesis by (simp add: decodedAt_def)
next
  case False
  then show ?thesis by (simp add: decodedAt_def)
qed

lemma scanPositions_no_split:
  "p \<in> set (scanPositions s i) \<Longrightarrow> fst p = i \<or> \<not> pairAt s (fst p - 1)"
proof (induction s i rule: scanPositions.induct)
  case (1 s i)
  show ?case
  proof (cases "i < length s")
    case True
    from "1.prems" have "p = (i, decodedAt s i) \<or> p \<in> set (scanPositions s (i + length (decodedAt s i)))"
      by (simp add: scanPositions_step[OF True])
    then show ?thesis
    proof
      assume "p = (i, decodedAt s i)" then show ?thesis by simp
    next
      assume "p \<in> set (scanPositions s (i + length (decodedAt s i)))"
      from "1.IH"[OF True this] no_pair_before_next[OF True] show ?thesis by auto
    qed
  next
    case False
    with "1.prems" show ?thesis by (subst (asm) scanPositions.simps) (auto split: if_splits)
  qed
qed

text \<open>
  Claim C7. For every string \<open>s\<close> of UTF-16 code units, well formed or not, the scan
  loop of both plugins returns without an exception. The body that records the index
  and \<open>char\<close> of each iteration shows what the loop visits: the indices start at 0 and
  increase strictly, so no position is visited twice; each next index is the current one
  plus the length of \<open>char\<close>; below \<open>length s\<close> the value of \<open>char\<close> is the whole
  surrogate pair when a well-formed pair starts there and the single code unit
  otherwise, also for an unpaired surrogate; no iteration starts on the second unit of a
  well-formed pair; and the last iteration, the only one at index \<open>length s\<close>, runs on
  the synthetic newline.
\<close>

theorem scan_loop_visits:
  "\<exists>tr. scanLoop (\<lambda>i char tr. tr @ [(i, char)]) s 0 [] = Inr tr
      \<and> tr \<noteq> [] \<and> fst (hd tr) = 0 \<and> last tr = (length s, newline)
      \<and> sorted_wrt (<) (map fst tr)
      \<and> successively (\<lambda>p q. fst q = fst p + length (snd p)) tr
      \<and> (\<forall>p \<in> set (butlast tr). fst p < length s \<and> snd p = decodedAt s (fst p))
      \<and> (\<forall>p \<in> set tr. \<not> (0 < fst p \<and> pairAt s (fst p - 1)))"
proof -
  let ?tr = "scanPositions s 0"
  have "scanLoop (\<lambda>i char tr. tr @ [(i, char)]) s 0 [] = Inr ?tr"
    by (simp add: scanLoop_record)
  moreover have "?tr \<noteq> [] \<and> fst (hd ?tr) = 0" by (rule scanPositions_hd) simp
  moreover have "last ?tr = (length s, newline)" by (rule scanPositions_last) simp
  moreover have "sorted_wrt (<) (map fst ?tr)" by (rule scanPositions_increasing)
  moreover have "successively (\<lambda>p q. fst q = fst p + length (snd p)) ?tr"
    by (rule scanPositions_successive)
  moreover have "\<forall>p \<in> set (butlast ?tr). fst p < length s \<and> snd p = decodedAt s (fst p)"
    using scanPositions_decoded by blast
  moreover have "\<forall>p \<in> set ?tr. \<not> (0 < fst p \<and> pairAt s (fst p - 1))"
    using scanPositions_no_split[of _ s 0] by auto
  ultimately show ?thesis by blast
qed

lemma scanPositions_exText:
  "scanPositions exText 0 = [(0, [0x61]), (1, [0xD83D, 0xDE00]), (3, [0xD83D]), (4, newline)]"
  by (simp add: scanPositions.simps decodedAt_def pairAt_def exText_def
        isHighSurrogate_def isLowSurrogate_def)

text \<open>
  Claim C7 at \<open>exText\<close>: the pair is taken in one iteration of width 2, the unpaired
  surrogate in one of width 1, and the loop ends with the newline at index 4.
\<close>

theorem scan_loop_visits_witness:
  "scanLoop (\<lambda>i char tr. tr @ [(i, char)]) exText 0 []
     = Inr [(0, [0x61]), (1, [0xD83D, 0xDE00]), (3, [0xD83D]), (4, newline)]"
proof -
  from scan_loop_visits[of exText] obtain tr where
    tr: "scanLoop (\<lambda>i char tr. tr @ [(i, char)]) exText 0 [] = Inr tr"
    by blast
  have "scanLoop (\<lambda>i char tr. tr @ [(i, char)]) exText 0 [] = Inr (scanPositions exText 0)"
    by (simp add: scanLoop_record)
  with tr have "tr = scanPositions exText 0" by simp
  with tr show ?thesis by (simp only: scanPositions_exText)
qed

section \<open>The sub-word flag\<close>

lemma scanPositions_char:
  "p \<in> set (scanPositions s i) \<Longrightarrow> fst p \<le> length s \<and> snd p = scannedChar s (fst p)"
proof (induction s i rule: scanPositions.induct)
  case (1 s i)
  show ?case
  proof (cases "i < length s")
    case True
    from "1.prems" have "p = (i, decodedAt s i) \<or> p \<in> set (scanPositions s (i + length (decodedAt s i)))"
      by (simp add: scanPositions_step[OF True])
    then show ?thesis
    proof
      assume "p = (i, decodedAt s i)" with True show ?thesis by (simp add: scannedChar_def)
    next
      assume "p \<in> set (scanPositions s (i + length (decodedAt s i)))"
      from "1.IH"[OF True this] show ?thesis .
    qed
  next
    case False
    with "1.prems" show ?thesis
      by (subst (asm) scanPositions.simps) (auto simp: scannedChar_def split: if_splits)
  qed
qed

lemma in_map_filter: "y \<in> set (List.map_filter f xs) \<longleftrightarrow> (\<exists>x \<in> set xs. f x = Some y)"
  by (induction xs) (auto split: option.splits)

lemma query_mend: "m \<in> set (query t i) \<Longrightarrow> mend m = i"
  by (auto simp: query_def in_map_filter split: if_splits)

lemma getCurrentMatchNodes_mend: "m \<in> set (getCurrentMatchNodes t i ex) \<Longrightarrow> mend m = i"
  by (auto simp: getCurrentMatchNodes_def in_map_filter Let_def query_mend split: if_splits)

lemma scanStep_flag:
  assumes "\<forall>a \<in> set (additions st). flagOk punctuation settings vfrom s a"
    and "i \<le> length s" and "c = scannedChar s i"
  shows "\<forall>a \<in> set (additions (scanStep punctuation settings mappedFile vfrom s i c st)).
           flagOk punctuation settings vfrom s a"
proof (cases "getCurrentMatchNodes (cache (scache st)) i
                (if excludeLinksToOwnNote settings then mappedFile else None)")
  case Nil
  with assms(1) show ?thesis by (simp add: scanStep_def Let_def)
next
  case (Cons node rest)
  then have "node \<in> set (getCurrentMatchNodes (cache (scache st)) i
      (if excludeLinksToOwnNote settings then mappedFile else None))" by simp
  then have "mend node = i" by (rule getCurrentMatchNodes_mend)
  with assms Cons show ?thesis
    by (auto simp: scanStep_def Let_def flagOk_def)
qed

lemma scanFold_flag:
  assumes "\<forall>p \<in> set ps. fst p \<le> length s \<and> snd p = scannedChar s (fst p)"
    and "\<forall>a \<in> set (additions st). flagOk punctuation settings vfrom s a"
  shows "\<forall>a \<in> set (additions (foldl (\<lambda>st p. scanStep punctuation settings mappedFile vfrom s
            (fst p) (snd p) st) st ps)). flagOk punctuation settings vfrom s a"
  using assms
proof (induction ps arbitrary: st)
  case Nil then show ?case by simp
next
  case (Cons p ps)
  have "\<forall>a \<in> set (additions (scanStep punctuation settings mappedFile vfrom s (fst p) (snd p) st)).
      flagOk punctuation settings vfrom s a"
    using Cons.prems by (intro scanStep_flag) simp_all
  with Cons.IH Cons.prems(1) show ?case by simp
qed

text \<open>
  Claim C6, as amended. The scan of the linker returns, and for every candidate it reports
  the flag \<open>isSubWord\<close> is true exactly when the character scanned at the index where
  the candidate is reported is not a word boundary. That index is the end of the
  candidate's span (relative to the window): the character is the one that follows the
  match, or the synthetic newline at the end of the window. Under
  \<open>matchOnlyWholeWords\<close> no candidate has the flag.
\<close>

theorem subword_flag_follows_match:
  "\<exists>st. scanLoop (scanStep punctuation settings mappedFile vfrom s) s 0
            \<lparr>scache = lc, additions = [], nextId = 0\<rparr> = Inr st
      \<and> (\<forall>a \<in> set (additions st).
            vfrom \<le> ato a \<and> nat (ato a - vfrom) \<le> length s
            \<and> isSubWord (widget a)
                = (\<not> checkWordBoundary punctuation (scannedChar s (nat (ato a - vfrom))))
            \<and> \<not> (matchOnlyWholeWords settings \<and> isSubWord (widget a)))"
proof -
  let ?st = "foldl (\<lambda>st p. scanStep punctuation settings mappedFile vfrom s (fst p) (snd p) st)
      \<lparr>scache = lc, additions = [], nextId = 0\<rparr> (scanPositions s 0)"
  have eq: "scanLoop (scanStep punctuation settings mappedFile vfrom s) s 0
      \<lparr>scache = lc, additions = [], nextId = 0\<rparr> = Inr ?st"
    by (rule scanLoop_fold)
  have "\<forall>a \<in> set (additions ?st). flagOk punctuation settings vfrom s a"
    using scanPositions_char by (intro scanFold_flag) auto
  then have "\<forall>a \<in> set (additions ?st).
            vfrom \<le> ato a \<and> nat (ato a - vfrom) \<le> length s
            \<and> isSubWord (widget a)
                = (\<not> checkWordBoundary punctuation (scannedChar s (nat (ato a - vfrom))))
            \<and> \<not> (matchOnlyWholeWords settings \<and> isSubWord (widget a))"
    unfolding flagOk_def .
  with eq show ?thesis by blast
qed

subsection \<open>Two scans of the model\<close>

lemma utf16_Note: "utf16 ''Note'' = [0x4E, 0x6F, 0x74, 0x65]"
  by (simp add: utf16_def)

lemma utf16_xNote: "utf16 ''xNote '' = [0x78, 0x4E, 0x6F, 0x74, 0x65, 0x20]"
  by (simp add: utf16_def)

lemma exCache_reset:
  "cacheReset exCache =
     \<lparr>cache = \<lparr>root = exTrie, current = [], offset = 0\<rparr>,
      dictionary = [\<lparr>etext = [0x4E, 0x6F, 0x74, 0x65], entity = ''Note.md'', isAlias = False\<rparr>],
      pendingUpdate = False\<rparr>"
  by (simp add: cacheReset_def reset_def exCache_def updateCache_def buildDictionary_def
        buildTree_def exVault_def utf16_Note exTrie_def isHighSurrogate_def isLowSurrogate_def)

lemma positions_xNote:
  "scanPositions [0x78, 0x4E, 0x6F, 0x74, 0x65, 0x20] 0 =
     [(0, [0x78]), (1, [0x4E]), (2, [0x6F]), (3, [0x74]), (4, [0x65]), (5, [0x20]), (6, newline)]"
  by (simp add: scanPositions.simps decodedAt_def pairAt_def isHighSurrogate_def isLowSurrogate_def)

lemma scan_xNote:
  "scanLoop (scanStep [] exSettings None 0 (utf16 ''xNote '')) (utf16 ''xNote '') 0
      \<lparr>scache = cacheReset exCache, additions = [], nextId = 0\<rparr>
   = Inr \<lparr>scache = \<lparr>cache = \<lparr>root = exTrie, current = [], offset = 7\<rparr>,
             dictionary = [\<lparr>etext = [0x4E, 0x6F, 0x74, 0x65], entity = ''Note.md'', isAlias = False\<rparr>],
             pendingUpdate = False\<rparr>,
           additions = [\<lparr>aid = 0, afrom = 1, ato = 5,
             widget = \<lparr>wtext = [0x4E, 0x6F, 0x74, 0x65], linkFile = Some ''Note.md'',
                        wfrom = 1, wto = 5, isSubWord = False\<rparr>\<rparr>],
           nextId = 1\<rparr>"
  by (simp add: scanLoop_fold utf16_xNote positions_xNote exCache_reset scanStep_def Let_def
        exSettings_def checkWordBoundary_def isWhitespace_def getCurrentMatchNodes_def query_def
        pushChar_def advance_def slice_def firstFile_def exTrie_def newline_def)

lemma utf16_Notebook: "utf16 ''Notebook'' = [0x4E, 0x6F, 0x74, 0x65, 0x62, 0x6F, 0x6F, 0x6B]"
  by (simp add: utf16_def)

lemma positions_Notebook:
  "scanPositions [0x4E, 0x6F, 0x74, 0x65, 0x62, 0x6F, 0x6F, 0x6B] 0 =
     [(0, [0x4E]), (1, [0x6F]), (2, [0x74]), (3, [0x65]), (4, [0x62]), (5, [0x6F]), (6, [0x6F]),
      (7, [0x6B]), (8, newline)]"
  by (simp add: scanPositions.simps decodedAt_def pairAt_def isHighSurrogate_def isLowSurrogate_def)

lemma scan_Notebook:
  "scanLoop (scanStep [] exSettings None 0 (utf16 ''Notebook'')) (utf16 ''Notebook'') 0
      \<lparr>scache = cacheReset exCache, additions = [], nextId = 0\<rparr>
   = Inr \<lparr>scache = \<lparr>cache = \<lparr>root = exTrie, current = [], offset = 9\<rparr>,
             dictionary = [\<lparr>etext = [0x4E, 0x6F, 0x74, 0x65], entity = ''Note.md'', isAlias = False\<rparr>],
             pendingUpdate = False\<rparr>,
           additions = [\<lparr>aid = 0, afrom = 0, ato = 4,
             widget = \<lparr>wtext = [0x4E, 0x6F, 0x74, 0x65], linkFile = Some ''Note.md'',
                        wfrom = 0, wto = 4, isSubWord = True\<rparr>\<rparr>],
           nextId = 1\<rparr>"
  by (simp add: scanLoop_fold utf16_Notebook positions_Notebook exCache_reset scanStep_def Let_def
        exSettings_def checkWordBoundary_def isWhitespace_def getCurrentMatchNodes_def query_def
        pushChar_def advance_def slice_def firstFile_def exTrie_def newline_def)

text \<open>
  Claim C6 as stated fails. In the text \<open>xNote \<close>, with the entry \<open>Note\<close> and sub-word
  matching enabled, the scan reports the candidate \<open>[1, 5)\<close>. Its left edge is not a
  word boundary: neither the character \<open>x\<close> before it nor its first character \<open>N\<close> is a
  boundary character. Its flag \<open>isSubWord\<close> is false all the same, since the character
  after the match is a space.
\<close>

theorem subword_flag_left_edge_counterexample:
  "map_sum id additions
     (scanLoop (scanStep [] exSettings None 0 (utf16 ''xNote '')) (utf16 ''xNote '') 0
        \<lparr>scache = cacheReset exCache, additions = [], nextId = 0\<rparr>)
   = Inr [\<lparr>aid = 0, afrom = 1, ato = 5,
           widget = \<lparr>wtext = utf16 ''Note'', linkFile = Some ''Note.md'',
                      wfrom = 1, wto = 5, isSubWord = False\<rparr>\<rparr>]
   \<and> \<not> checkWordBoundary [] (utf16 ''x'')
   \<and> \<not> checkWordBoundary [] (utf16 ''N'')
   \<and> \<not> matchOnlyWholeWords exSettings"
  by (simp only: scan_xNote)
    (simp add: checkWordBoundary_def isWhitespace_def utf16_def exSettings_def)

text \<open>
  The amended claim C6 at the text \<open>Notebook\<close>: the candidate \<open>[0, 4)\<close> for \<open>Note\<close> has
  the flag, since the character \<open>b\<close> scanned at index 4 is not a boundary.
\<close>

theorem subword_flag_follows_match_witness:
  "\<exists>st. scanLoop (scanStep [] exSettings None 0 (utf16 ''Notebook'')) (utf16 ''Notebook'') 0
            \<lparr>scache = cacheReset exCache, additions = [], nextId = 0\<rparr> = Inr st
      \<and> additions st = [\<lparr>aid = 0, afrom = 0, ato = 4,
             widget = \<lparr>wtext = utf16 ''Note'', linkFile = Some ''Note.md'',
                        wfrom = 0, wto = 4, isSubWord = True\<rparr>\<rparr>]
      \<and> \<not> checkWordBoundary [] (scannedChar (utf16 ''Notebook'') 4)"
proof -
  from subword_flag_follows_match[of "[]" exSettings None 0 "utf16 ''Notebook''" "cacheReset exCache"]
  obtain st where st: "scanLoop (scanStep [] exSettings None 0 (utf16 ''Notebook''))
        (utf16 ''Notebook'') 0 \<lparr>scache = cacheReset exCache, additions = [], nextId = 0\<rparr> = Inr st"
    and flag: "\<forall>a \<in> set (additions st).
        isSubWord (widget a) = (\<not> checkWordBoundary [] (scannedChar (utf16 ''Notebook'')
          (nat (ato a - 0))))"
    by blast
  from st have a: "additions st = [\<lparr>aid = 0, afrom = 0, ato = 4,
             widget = \<lparr>wtext = utf16 ''Note'', linkFile = Some ''Note.md'',
                        wfrom = 0, wto = 4, isSubWord = True\<rparr>\<rparr>]"
    by (auto simp: scan_Notebook utf16_Note)
  with flag have "\<not> checkWordBoundary [] (scannedChar (utf16 ''Notebook'') 4)" by simp
  with st a show ?thesis by blast
qed

subsection \<open>One pass over a visible range\<close>

lemma exView_text: "sliceString (doc exView) 0 6 = utf16 ''xNote ''"
  by (simp add: sliceString_def exView_def utf16_def)

lemma decorateRange_exView:
  "decorateRange [] exSettings exView True None (exCache, []) (0, 6)
   = Inr (\<lparr>cache = \<lparr>root = exTrie, current = [], offset = 7\<rparr>,
            dictionary = [\<lparr>etext = [0x4E, 0x6F, 0x74, 0x65], entity = ''Note.md'', isAlias = False\<rparr>],
            pendingUpdate = False\<rparr>,
          [\<lparr>dfrom = 1, dto = 5,
            dwidget = \<lparr>wtext = [0x4E, 0x6F, 0x74, 0x65], linkFile = Some ''Note.md'',
                        wfrom = 1, wto = 5, isSubWord = False\<rparr>\<rparr>])"
proof -
  have "decorateRange [] exSettings exView True None (exCache, []) (0, 6)
    = (case scanLoop (scanStep [] exSettings None 0 (utf16 ''xNote '')) (utf16 ''xNote '') 0
              \<lparr>scache = cacheReset exCache, additions = [], nextId = 0\<rparr> of
         Inl e \<Rightarrow> Inl e
       | Inr st \<Rightarrow>
           Inr (scache st,
                emitDecorations
                  (iterateNodes (excludedTypes (includeHeaders exSettings))
                     (syntaxTreeIterate exView 0 6) [])
                  (selectionMainFrom exView)
                  (True \<and> excludeLinksInCurrentLine exSettings)
                  (fst (lineAt exView (selectionMainFrom exView)))
                  (snd (lineAt exView (selectionMainFrom exView)))
                  [] (filterAdditions (sortAdditions (additions st)))))"
    by (simp only: decorateRange_def Let_def fst_conv snd_conv exView_text)
  also have "\<dots> = Inr (\<lparr>cache = \<lparr>root = exTrie, current = [], offset = 7\<rparr>,
            dictionary = [\<lparr>etext = [0x4E, 0x6F, 0x74, 0x65], entity = ''Note.md'', isAlias = False\<rparr>],
            pendingUpdate = False\<rparr>,
          [\<lparr>dfrom = 1, dto = 5,
            dwidget = \<lparr>wtext = [0x4E, 0x6F, 0x74, 0x65], linkFile = Some ''Note.md'',
                        wfrom = 1, wto = 5, isSubWord = False\<rparr>\<rparr>])"
    by (simp only: scan_xNote)
      (simp add: filterAdditions_def emitDecorations_def emitAddition_def treeSearch_def
         exView_def exSettings_def Let_def)
  finally show ?thesis .
qed

text \<open>
  Claim C1 at the view of the document \<open>xNote \<close>: the pass over the range \<open>[0, 6)\<close>
  adds the one decoration \<open>[1, 5)\<close>.
\<close>

theorem decorations_sorted_nonoverlapping_witness:
  "\<exists>lc'. decorateRange [] exSettings exView True None (exCache, []) (0, 6)
      = Inr (lc', [\<lparr>dfrom = 1, dto = 5,
                     dwidget = \<lparr>wtext = utf16 ''Note'', linkFile = Some ''Note.md'',
                                 wfrom = 1, wto = 5, isSubWord = False\<rparr>\<rparr>])"
proof -
  from decorations_sorted_nonoverlapping[of "[]" exSettings exView True None exCache "[]" "(0, 6)"]
  obtain lc' ds where "decorateRange [] exSettings exView True None (exCache, []) (0, 6)
      = Inr (lc', [] @ ds)"
    by blast
  then show ?thesis by (simp add: decorateRange_exView utf16_Note)
qed

section \<open>The cache update\<close>

lemma updateCache_twice:
  "updateCache force2 notes (updateCache force notes lc) = updateCache force notes lc"
  if "force2 \<longrightarrow> force \<or> pendingUpdate lc"
  using that by (auto simp: updateCache_def)

text \<open>
  Claim C8. A second call of the cache update with the same arguments, with no change
  notification in between, returns the state of the first call: the same trie, cursors,
  dictionary and pending flag. The same holds when the second call is not forced. The
  pass over any visible range therefore gives the same result after two calls as after
  one, in both plugins.
\<close>

theorem update_cache_idempotent:
  "updateCache force notes (updateCache force notes lc) = updateCache force notes lc
   \<and> updateCache False notes (updateCache force notes lc) = updateCache force notes lc
   \<and> cache (updateCache force notes (updateCache force notes lc))
       = cache (updateCache force notes lc)
   \<and> decorateRange punctuation settings v viewIsActive mappedFile
         (updateCache force notes (updateCache force notes lc), builder) vrange
       = decorateRange punctuation settings v viewIsActive mappedFile
           (updateCache force notes lc, builder) vrange
   \<and> glossary_decorateRange punctuation v
         (updateCache False notes (updateCache False notes lc), gbuilder) vrange
       = glossary_decorateRange punctuation v (updateCache False notes lc, gbuilder) vrange"
  by (simp add: updateCache_twice)

section \<open>The frame of \<open>update\<close>\<close>

lemma noteActiveView_frame:
  "\<exists>m. snd (noteActiveView settings ws upd this) = this\<lparr>viewUpdateDomToFileMap := m\<rparr>
     \<and> (\<forall>d. d \<noteq> vdom (view upd) \<longrightarrow> m d = viewUpdateDomToFileMap this d)
     \<and> (\<not> excludeLinksInCurrentLine settings \<and> \<not> excludeLinksToOwnNote settings
          \<longrightarrow> m = viewUpdateDomToFileMap this)"
proof (cases "fst (noteActiveView settings ws upd this)")
  case True
  then have "snd (noteActiveView settings ws upd this) =
      this\<lparr>viewUpdateDomToFileMap := (viewUpdateDomToFileMap this)
        (vdom (view upd) \<mapsto> (case activeView ws of None \<Rightarrow> None | Some av \<Rightarrow> viewFile av))\<rparr>"
    by (auto simp: noteActiveView_def Let_def split: if_splits)
  moreover from True have "excludeLinksInCurrentLine settings \<or> excludeLinksToOwnNote settings"
    by (auto simp: noteActiveView_def Let_def split: if_splits)
  ultimately show ?thesis by (intro exI[of _ "(viewUpdateDomToFileMap this)
        (vdom (view upd) \<mapsto> (case activeView ws of None \<Rightarrow> None | Some av \<Rightarrow> viewFile av))"]) auto
next
  case False
  then have "snd (noteActiveView settings ws upd this) = this"
    by (auto simp: noteActiveView_def Let_def split: if_splits)
  then show ?thesis by (intro exI[of _ "viewUpdateDomToFileMap this"]) simp
qed

lemma noteActiveView_fields:
  "lastCursorPos (snd (noteActiveView settings ws upd this)) = lastCursorPos this"
  "lastActiveFile (snd (noteActiveView settings ws upd this)) = lastActiveFile this"
  by (simp_all add: noteActiveView_def Let_def)

text \<open>
  Claim C10, as amended. When \<open>update\<close> is not forced, the cursor is at the recorded
  position, the document and the viewport did not change and the active file is the
  recorded one, then \<open>update\<close> returns without a cache update and without a rebuild: the
  decorations, the cache, the recorded cursor position and the recorded file are
  unchanged. Besides \<open>lastViewUpdate\<close>, the linker may change the entry of
  \<open>viewUpdateDomToFileMap\<close> for the DOM element of the update, and no other entry;
  with \<open>excludeLinksInCurrentLine\<close> and \<open>excludeLinksToOwnNote\<close> both off the map is
  unchanged. The glossary plugin's \<open>update\<close> changes nothing.
\<close>

theorem update_frame:
  "(\<not> force \<and> selectionMainFrom (view upd) = lastCursorPos this \<and> \<not> docChanged upd
      \<and> activeFile ws = Some (lastActiveFile this) \<and> \<not> viewportChanged upd \<longrightarrow>
    (\<exists>m. update punctuation settings ws upd force this
           = Inr (this\<lparr>viewUpdateDomToFileMap := m, lastViewUpdate := Some upd\<rparr>)
       \<and> (\<forall>d. d \<noteq> vdom (view upd) \<longrightarrow> m d = viewUpdateDomToFileMap this d)
       \<and> (\<not> excludeLinksInCurrentLine settings \<and> \<not> excludeLinksToOwnNote settings
            \<longrightarrow> m = viewUpdateDomToFileMap this)))
   \<and> (selectionMainFrom (view upd) = glastCursorPos gthis \<and> \<not> docChanged upd
      \<and> activeFile ws = Some (glastActiveFile gthis) \<and> \<not> viewportChanged upd \<longrightarrow>
    glossary_update punctuation ws upd gthis = Inr gthis)"
proof (intro conjI impI)
  assume h: "\<not> force \<and> selectionMainFrom (view upd) = lastCursorPos this \<and> \<not> docChanged upd
      \<and> activeFile ws = Some (lastActiveFile this) \<and> \<not> viewportChanged upd"
  from noteActiveView_frame[of settings ws upd this] obtain m where
    m: "snd (noteActiveView settings ws upd this) = this\<lparr>viewUpdateDomToFileMap := m\<rparr>"
      "\<forall>d. d \<noteq> vdom (view upd) \<longrightarrow> m d = viewUpdateDomToFileMap this d"
      "\<not> excludeLinksInCurrentLine settings \<and> \<not> excludeLinksToOwnNote settings
          \<longrightarrow> m = viewUpdateDomToFileMap this"
    by blast
  have "update punctuation settings ws upd force this
      = Inr ((snd (noteActiveView settings ws upd this))\<lparr>lastViewUpdate := Some upd\<rparr>)"
    using h by (simp add: update_def Let_def noteActiveView_fields)
  then have "update punctuation settings ws upd force this
      = Inr (this\<lparr>viewUpdateDomToFileMap := m, lastViewUpdate := Some upd\<rparr>)"
    by (simp only: m(1))
  with m(2,3) show "\<exists>m. update punctuation settings ws upd force this
           = Inr (this\<lparr>viewUpdateDomToFileMap := m, lastViewUpdate := Some upd\<rparr>)
       \<and> (\<forall>d. d \<noteq> vdom (view upd) \<longrightarrow> m d = viewUpdateDomToFileMap this d)
       \<and> (\<not> excludeLinksInCurrentLine settings \<and> \<not> excludeLinksToOwnNote settings
            \<longrightarrow> m = viewUpdateDomToFileMap this)"
    by blast
next
  assume "selectionMainFrom (view upd) = glastCursorPos gthis \<and> \<not> docChanged upd
      \<and> activeFile ws = Some (glastActiveFile gthis) \<and> \<not> viewportChanged upd"
  then show "glossary_update punctuation ws upd gthis = Inr gthis"
    by (simp add: glossary_update_def Let_def)
qed

text \<open>
  Claim C10 as stated fails. The update \<open>exUpdate\<close> meets every condition of the claim,
  and \<open>update\<close> still stores the file of the active view under the DOM element 2 in
  \<open>viewUpdateDomToFileMap\<close>: more than the last-view-update reference changes.
\<close>

theorem update_frame_counterexample:
  "selectionMainFrom (view exUpdate) = lastCursorPos exPlugin
   \<and> \<not> docChanged exUpdate \<and> \<not> viewportChanged exUpdate
   \<and> activeFile exWorkspace = Some (lastActiveFile exPlugin)
   \<and> viewUpdateDomToFileMap exPlugin 2 = None
   \<and> map_sum id (\<lambda>this. viewUpdateDomToFileMap this 2)
        (update [] exOwnNoteSettings exWorkspace exUpdate False exPlugin)
      = Inr (Some (Some ''A.md''))"
  by (simp add: update_def Let_def noteActiveView_def exOwnNoteSettings_def exWorkspace_def
        exUpdate_def exView_def exPlugin_def isDescendant_def numeral_3_eq_3)

text \<open>
  The amended claim C10 at \<open>exUpdate\<close>: the decorations and the map entry of another
  DOM element are unchanged, and the glossary plugin's state is returned as it was.
\<close>

theorem update_frame_witness:
  "map_sum id decorations (update [] exOwnNoteSettings exWorkspace exUpdate False exPlugin)
     = Inr (decorations exPlugin)
   \<and> map_sum id (\<lambda>this. viewUpdateDomToFileMap this 5)
        (update [] exOwnNoteSettings exWorkspace exUpdate False exPlugin)
      = Inr (viewUpdateDomToFileMap exPlugin 5)
   \<and> glossary_update [] exWorkspace exUpdate exGlossaryPlugin = Inr exGlossaryPlugin"
proof -
  have h: "\<not> False \<and> selectionMainFrom (view exUpdate) = lastCursorPos exPlugin
      \<and> \<not> docChanged exUpdate
      \<and> activeFile exWorkspace = Some (lastActiveFile exPlugin) \<and> \<not> viewportChanged exUpdate"
    by (simp add: exUpdate_def exView_def exPlugin_def exWorkspace_def)
  have g: "selectionMainFrom (view exUpdate) = glastCursorPos exGlossaryPlugin
      \<and> \<not> docChanged exUpdate
      \<and> activeFile exWorkspace = Some (glastActiveFile exGlossaryPlugin)
      \<and> \<not> viewportChanged exUpdate"
    by (simp add: exUpdate_def exView_def exGlossaryPlugin_def exWorkspace_def)
  note inst = update_frame[of False exUpdate exPlugin exWorkspace "[]" exOwnNoteSettings
      exGlossaryPlugin]
  from inst h obtain m where
    m: "update [] exOwnNoteSettings exWorkspace exUpdate False exPlugin
          = Inr (exPlugin\<lparr>viewUpdateDomToFileMap := m, lastViewUpdate := Some exUpdate\<rparr>)"
      "\<forall>d. d \<noteq> vdom (view exUpdate) \<longrightarrow> m d = viewUpdateDomToFileMap exPlugin d"
    by blast
  have "(5::nat) \<noteq> vdom (view exUpdate)" by (simp add: exUpdate_def exView_def)
  with m(2) have "m 5 = viewUpdateDomToFileMap exPlugin 5" by blast
  with m(1) have a: "map_sum id decorations (update [] exOwnNoteSettings exWorkspace exUpdate False exPlugin)
     = Inr (decorations exPlugin)"
    "map_sum id (\<lambda>this. viewUpdateDomToFileMap this 5)
        (update [] exOwnNoteSettings exWorkspace exUpdate False exPlugin)
      = Inr (viewUpdateDomToFileMap exPlugin 5)"
    by simp_all
  from inst g have "glossary_update [] exWorkspace exUpdate exGlossaryPlugin = Inr exGlossaryPlugin"
    by blast
  with a show ?thesis by blast
qed

end
